theory Spec2Isabelle
  imports Complex_Main
begin

section \<open>Floating values\<close>

text \<open>
  The cells of the price table are double-precision floats. The development keeps the
  special values of that type (not-a-number and the two infinities), because the
  pipeline's treatment of undefined results is what the specification is about, and
  takes the finite values to be real numbers: rounding, overflow and the sign of zero
  are outside this model. Where a claim depends on the rounding, the computation is
  given again with every operation rounded (section on binary64 rounding).
\<close>

datatype fval = Fin real | PInf | NInf | NaN

fun isnan :: "fval \<Rightarrow> bool" where
  "isnan NaN = True"
| "isnan _ = False"

fun fneg :: "fval \<Rightarrow> fval" where
  "fneg (Fin a) = Fin (- a)"
| "fneg PInf = NInf"
| "fneg NInf = PInf"
| "fneg NaN = NaN"

fun fadd :: "fval \<Rightarrow> fval \<Rightarrow> fval" where
  "fadd NaN _ = NaN"
| "fadd _ NaN = NaN"
| "fadd (Fin a) (Fin b) = Fin (a + b)"
| "fadd PInf NInf = NaN"
| "fadd NInf PInf = NaN"
| "fadd PInf _ = PInf"
| "fadd NInf _ = NInf"
| "fadd (Fin a) PInf = PInf"
| "fadd (Fin a) NInf = NInf"

definition fsub :: "fval \<Rightarrow> fval \<Rightarrow> fval" where
  "fsub a b = fadd a (fneg b)"

text \<open>The sign of an infinite product or quotient: a factor counts as negative when it is below zero.\<close>

fun negative :: "fval \<Rightarrow> bool" where
  "negative (Fin a) = (a < 0)"
| "negative NInf = True"
| "negative _ = False"

definition signed_inf :: "bool \<Rightarrow> fval" where
  "signed_inf neg = (if neg then NInf else PInf)"

fun fmul :: "fval \<Rightarrow> fval \<Rightarrow> fval" where
  "fmul NaN _ = NaN"
| "fmul _ NaN = NaN"
| "fmul (Fin a) (Fin b) = Fin (a * b)"
| "fmul (Fin a) y = (if a = 0 then NaN else signed_inf (negative (Fin a) \<noteq> negative y))"
| "fmul x (Fin b) = (if b = 0 then NaN else signed_inf (negative x \<noteq> negative (Fin b)))"
| "fmul x y = signed_inf (negative x \<noteq> negative y)"

fun fdiv :: "fval \<Rightarrow> fval \<Rightarrow> fval" where
  "fdiv NaN _ = NaN"
| "fdiv _ NaN = NaN"
| "fdiv (Fin a) (Fin b) =
     (if b = 0 then (if a = 0 then NaN else signed_inf (a < 0)) else Fin (a / b))"
| "fdiv (Fin a) _ = Fin 0"
| "fdiv x (Fin b) = signed_inf (negative x \<noteq> negative (Fin b))"
| "fdiv _ _ = NaN"

text \<open>\<^verbatim>\<open>np.log\<close>, the square root inside \<^verbatim>\<open>std\<close> and the square \<^verbatim>\<open>** 2\<close> inside the variance.\<close>

fun flog :: "fval \<Rightarrow> fval" where
  "flog (Fin a) = (if a < 0 then NaN else if a = 0 then NInf else Fin (ln a))"
| "flog PInf = PInf"
| "flog _ = NaN"

fun fsqrt :: "fval \<Rightarrow> fval" where
  "fsqrt (Fin a) = (if a < 0 then NaN else Fin (sqrt a))"
| "fsqrt PInf = PInf"
| "fsqrt _ = NaN"

fun fsquare :: "fval \<Rightarrow> fval" where
  "fsquare (Fin a) = Fin (a * a)"
| "fsquare NaN = NaN"
| "fsquare _ = PInf"

section \<open>Series and frames\<close>

text \<open>
  A date is the ordinal of a trading day. A series is a list of labelled values; a frame
  has one index of dates and named columns, each column holding one value per index entry.
  The price source delivers every trading day once, so the dates of one index are
  distinct; where the order of the dates or the length of the columns matters, a theorem
  says so in its hypotheses.
\<close>

type_synonym date = nat

type_synonym series = "(date \<times> fval) list"

record frame =
  index :: "date list"
  columns :: "(string \<times> fval list) list"

datatype error = ColumnsOverlap | KeyError

definition lookup :: "series \<Rightarrow> date \<Rightarrow> fval" where
  "lookup s d = (case map_of s d of None \<Rightarrow> NaN | Some v \<Rightarrow> v)"

definition names :: "frame \<Rightarrow> string list" where
  "names f = map fst (columns f)"

text \<open>\<^verbatim>\<open>df.join(s)\<close>: a left join on the index; an existing column of that name is an error.\<close>

definition join :: "frame \<Rightarrow> string \<Rightarrow> series \<Rightarrow> error + frame" where
  "join f name s =
     (if name \<in> set (names f) then Inl ColumnsOverlap
      else Inr (f\<lparr>columns := columns f @ [(name, map (lookup s) (index f))]\<rparr>))"

text \<open>\<^verbatim>\<open>df[name]\<close>.\<close>

definition getitem :: "frame \<Rightarrow> string \<Rightarrow> error + fval list" where
  "getitem f name = (case map_of (columns f) name of None \<Rightarrow> Inl KeyError | Some vs \<Rightarrow> Inr vs)"

definition map_columns :: "(fval list \<Rightarrow> fval list) \<Rightarrow> frame \<Rightarrow> frame" where
  "map_columns g f = f\<lparr>columns := map (\<lambda>(c, vs). (c, g vs)) (columns f)\<rparr>"

text \<open>\<^verbatim>\<open>df.div(col, axis=0)\<close> for a column \<open>col\<close> of the same frame: row by row.\<close>

definition div_axis0 :: "frame \<Rightarrow> fval list \<Rightarrow> frame" where
  "div_axis0 f col = map_columns (\<lambda>vs. map2 fdiv vs col) f"

text \<open>\<^verbatim>\<open>df.mul(k)\<close> and \<^verbatim>\<open>k + df\<close> for a scalar \<open>k\<close>.\<close>

definition mul :: "frame \<Rightarrow> real \<Rightarrow> frame" where
  "mul f k = map_columns (map (\<lambda>v. fmul v (Fin k))) f"

definition radd :: "real \<Rightarrow> frame \<Rightarrow> frame" where
  "radd k f = map_columns (map (\<lambda>v. fadd (Fin k) v)) f"

text \<open>
  \<^verbatim>\<open>df.div(s, axis=0)\<close> for a series \<open>s\<close> with an index of its own: both sides are
  first aligned on the union of the two indexes, a label missing on one side reading as NaN.
\<close>

definition union_index :: "date list \<Rightarrow> date list \<Rightarrow> date list" where
  "union_index xs ys = (if xs = ys then xs else sort (remdups (xs @ ys)))"

definition div_series :: "frame \<Rightarrow> series \<Rightarrow> frame" where
  "div_series f s =
     (let ix = union_index (index f) (map fst s)
      in \<lparr>index = ix,
          columns = map (\<lambda>(c, vs). (c, map (\<lambda>d. fdiv (lookup (zip (index f) vs) d) (lookup s d)) ix))
                      (columns f)\<rparr>)"

text \<open>\<^verbatim>\<open>df.dropna()\<close>: a row stays when none of its cells is NaN.\<close>

definition row_complete :: "frame \<Rightarrow> nat \<Rightarrow> bool" where
  "row_complete f k = list_all (\<lambda>(c, vs). \<not> isnan (vs ! k)) (columns f)"

definition select :: "bool list \<Rightarrow> 'a list \<Rightarrow> 'a list" where
  "select keep xs = map fst (filter snd (zip xs keep))"

definition dropna :: "frame \<Rightarrow> frame" where
  "dropna f =
     (let keep = map (row_complete f) [0 ..< length (index f)]
      in \<lparr>index = select keep (index f),
          columns = map (\<lambda>(c, vs). (c, select keep vs)) (columns f)\<rparr>)"

text \<open>
  \<^verbatim>\<open>df.pct_change(periods=p)\<close>: missing values are first filled forward, then every
  value is divided by the one \<open>p\<close> rows earlier, and 1 is subtracted.
\<close>

fun ffill :: "fval \<Rightarrow> fval list \<Rightarrow> fval list" where
  "ffill prev [] = []"
| "ffill prev (v # vs) = (if isnan v then prev # ffill prev vs else v # ffill v vs)"

definition shift :: "nat \<Rightarrow> fval list \<Rightarrow> fval list" where
  "shift p vs = replicate (min p (length vs)) NaN @ take (length vs - p) vs"

definition pct_change_col :: "nat \<Rightarrow> fval list \<Rightarrow> fval list" where
  "pct_change_col p vs =
     (let data = ffill NaN vs
      in map2 (\<lambda>x y. fsub (fdiv x y) (Fin 1)) data (shift p data))"

definition pct_change :: "nat \<Rightarrow> frame \<Rightarrow> frame" where
  "pct_change p f = map_columns (pct_change_col p) f"

text \<open>\<^verbatim>\<open>np.log(df)\<close> and the difference of two frames with the same labels.\<close>

definition log_frame :: "frame \<Rightarrow> frame" where
  "log_frame f = map_columns (map flog) f"

definition sub_frame :: "frame \<Rightarrow> frame \<Rightarrow> frame" where
  "sub_frame f g =
     f\<lparr>columns := map2 (\<lambda>(c, xs) (c', ys). (c, map2 fsub xs ys)) (columns f) (columns g)\<rparr>"

text \<open>
  \<^verbatim>\<open>df.mean()\<close> and \<^verbatim>\<open>df.std()\<close> work column by column and skip NaN cells. The mean
  of no value is NaN; the standard deviation is the sample one (one degree of freedom
  removed), NaN for fewer than two values. The sums and quotients below are those of
  the real numbers, where the program's doubles round after every operation: the
  theorems about these two functions speak of the computed value (\<open>std r\<close> is zero, a
  quotient is NaN) and never conclude from a column being constant that its deviation
  is zero.
\<close>

definition fsum :: "fval list \<Rightarrow> fval" where
  "fsum vs = foldr fadd vs (Fin 0)"

definition valid :: "fval list \<Rightarrow> fval list" where
  "valid vs = filter (\<lambda>v. \<not> isnan v) vs"

definition mean :: "fval list \<Rightarrow> fval" where
  "mean vs =
     (let xs = valid vs
      in if xs = [] then NaN else fdiv (fsum xs) (Fin (real (length xs))))"

definition var :: "fval list \<Rightarrow> fval" where
  "var vs =
     (let xs = valid vs; n = length xs
      in if n \<le> 1 then NaN
         else (let avg = fdiv (fsum xs) (Fin (real n))
               in fdiv (fsum (map (\<lambda>v. fsquare (fsub avg v)) xs)) (Fin (real (n - 1)))))"

definition std :: "fval list \<Rightarrow> fval" where
  "std vs = fsqrt (var vs)"

text \<open>\<^verbatim>\<open>(df - df.mean()) / df.std()\<close> and \<^verbatim>\<open>df.replace(np.nan, 0)\<close>.\<close>

definition standardize_col :: "fval list \<Rightarrow> fval list" where
  "standardize_col vs = map (\<lambda>v. fdiv (fsub v (mean vs)) (std vs)) vs"

definition standardize :: "frame \<Rightarrow> frame" where
  "standardize f = map_columns standardize_col f"

definition nan_to_zero :: "fval \<Rightarrow> fval" where
  "nan_to_zero v = (if isnan v then Fin 0 else v)"

definition replace_nan :: "frame \<Rightarrow> frame" where
  "replace_nan f = map_columns (map nan_to_zero) f"

section \<open>The pipeline\<close>

text \<open>
  The variables of the script once the two tables are computed. \<open>rs_ratio\<close> is the value
  of \<^verbatim>\<open>rs\<close> after its first assignment, before it is standardized.
\<close>

record vars =
  aprc :: frame
  rs_ratio :: frame
  rs :: frame
  mom_raw :: frame
  mom3 :: frame
  mom1 :: frame
  mom :: frame
  rs_mom :: frame

definition metrics :: "frame \<Rightarrow> fval list \<Rightarrow> series \<Rightarrow> vars" where
  "metrics joined bench sp500 =
     (let ratio = mul (div_axis0 joined bench) 100;
          rs = standardize ratio;
          rs = replace_nan rs;
          mom_raw = dropna (mul (div_series joined sp500) 100);
          mom3 = pct_change 63 mom_raw;
          mom1 = pct_change 21 mom_raw;
          mom = sub_frame (log_frame (radd 1 mom3)) (log_frame (radd 1 mom1));
          mom = replace_nan mom;
          rs_mom = standardize mom;
          rs_mom = replace_nan rs_mom
      in \<lparr>aprc = joined, rs_ratio = ratio, rs = rs, mom_raw = mom_raw, mom3 = mom3,
          mom1 = mom1, mom = mom, rs_mom = rs_mom\<rparr>)"

text \<open>
  The script from the join of the benchmark onwards: \<open>aprc0\<close> is the table of sector
  prices as fetched, \<open>sp500\<close> the benchmark series.
\<close>

definition rrg :: "frame \<Rightarrow> series \<Rightarrow> error + vars" where
  "rrg aprc0 sp500 =
     (case join aprc0 ''SP500'' sp500 of
        Inl e \<Rightarrow> Inl e
      | Inr joined \<Rightarrow>
          (case getitem joined ''SP500'' of
             Inl e \<Rightarrow> Inl e
           | Inr bench \<Rightarrow> Inr (metrics joined bench sp500)))"

section \<open>The chart\<close>

text \<open>
  The slider offers seven tail lengths; the chain of comparisons turns the selected one
  into the start of the slice. A string that is none of the seven leaves the variable unbound.
\<close>

definition slider_options :: "string list" where
  "slider_options = [''LTD*'', ''3D'', ''7D'', ''14D'', ''21D'', ''50D'', ''MAX**'']"

definition lookback_period :: "string \<Rightarrow> int option" where
  "lookback_period selection =
     (if selection = ''LTD*'' then Some (- 1)
      else if selection = ''3D'' then Some (- 3)
      else if selection = ''7D'' then Some (- 7)
      else if selection = ''14D'' then Some (- 14)
      else if selection = ''21D'' then Some (- 21)
      else if selection = ''50D'' then Some (- 50)
      else if selection = ''MAX**'' then Some 0
      else None)"

text \<open>\<^verbatim>\<open>df[name]\<close> as a labelled series, \<^verbatim>\<open>s.iloc[k:]\<close> and \<^verbatim>\<open>s.values\<close>.\<close>

definition column :: "frame \<Rightarrow> string \<Rightarrow> error + series" where
  "column f name = (case getitem f name of Inl e \<Rightarrow> Inl e | Inr vs \<Rightarrow> Inr (zip (index f) vs))"

definition iloc_from :: "int \<Rightarrow> 'a list \<Rightarrow> 'a list" where
  "iloc_from k xs =
     (let n = int (length xs);
          start = (if k < 0 then max 0 (n + k) else min k n)
      in drop (nat start) xs)"

definition values_of :: "series \<Rightarrow> fval list" where
  "values_of s = map snd s"

text \<open>The line trace of one sector: the tails of its two series, as x and y values.\<close>

definition trail :: "vars \<Rightarrow> int \<Rightarrow> string \<Rightarrow> error + fval list \<times> fval list" where
  "trail v k etf =
     (case column (rs v) etf of
        Inl e \<Rightarrow> Inl e
      | Inr x \<Rightarrow>
          (case column (rs_mom v) etf of
             Inl e \<Rightarrow> Inl e
           | Inr y \<Rightarrow> Inr (values_of (iloc_from k x), values_of (iloc_from k y))))"

section \<open>Auxiliary notions\<close>

text \<open>What the pipeline does to one column, and the table the join produces.\<close>

definition ratio_col :: "fval list \<Rightarrow> fval list \<Rightarrow> fval list" where
  "ratio_col bench vs = map (\<lambda>v. fmul v (Fin 100)) (map2 fdiv vs bench)"

definition rs_col :: "fval list \<Rightarrow> fval list \<Rightarrow> fval list" where
  "rs_col bench vs = map nan_to_zero (standardize_col (ratio_col bench vs))"

definition mom_col :: "fval list \<Rightarrow> fval list" where
  "mom_col r =
     map nan_to_zero
       (map2 fsub (map flog (map (\<lambda>v. fadd (Fin 1) v) (pct_change_col 63 r)))
                  (map flog (map (\<lambda>v. fadd (Fin 1) v) (pct_change_col 21 r))))"

definition rs_mom_col :: "fval list \<Rightarrow> fval list" where
  "rs_mom_col r = map nan_to_zero (standardize_col (mom_col r))"

definition joined :: "frame \<Rightarrow> series \<Rightarrow> frame" where
  "joined aprc0 sp500 = aprc0\<lparr>columns := columns aprc0 @ [(''SP500'', map (lookup sp500) (index aprc0))]\<rparr>"

definition benchmark :: "frame \<Rightarrow> series \<Rightarrow> fval list" where
  "benchmark aprc0 sp500 = map (lookup sp500) (index aprc0)"

text \<open>
  The ratio of one cell, read by date, and the dates at which every ratio of the table is
  defined; a table whose columns are as long as its index; a strictly ascending index.
\<close>

definition ratio_at :: "frame \<Rightarrow> series \<Rightarrow> fval list \<Rightarrow> date \<Rightarrow> fval" where
  "ratio_at f s vs d = fmul (fdiv (lookup (zip (index f) vs) d) (lookup s d)) (Fin 100)"

definition row_defined :: "frame \<Rightarrow> series \<Rightarrow> date \<Rightarrow> bool" where
  "row_defined f s d = list_all (\<lambda>(c, vs). \<not> isnan (ratio_at f s vs d)) (columns f)"

definition rectangular :: "frame \<Rightarrow> bool" where
  "rectangular f = list_all (\<lambda>(c, vs). length vs = length (index f)) (columns f)"

definition ascending :: "date list \<Rightarrow> bool" where
  "ascending ds = sorted_wrt (<) ds"

text \<open>
  The mean and the sample standard deviation of a list of reals, as the specification
  words them, and the standardized value of one cell of a column.
\<close>

definition spec_mean :: "real list \<Rightarrow> real" where
  "spec_mean xs = sum_list xs / real (length xs)"

definition spec_stddev :: "real list \<Rightarrow> real" where
  "spec_stddev xs =
     sqrt (sum_list (map (\<lambda>x. (x - spec_mean xs)\<^sup>2) xs) / real (length xs - 1))"

definition standardized :: "fval list \<Rightarrow> nat \<Rightarrow> fval" where
  "standardized r t = nan_to_zero (fdiv (fsub (r ! t) (mean r)) (std r))"

text \<open>A small table: three trading days, two sectors, one price missing.\<close>

definition ex_aprc :: frame where
  "ex_aprc = \<lparr>index = [0, 1, 2],
              columns = [(''CD'', [Fin 10, Fin 20, NaN]), (''CS'', [Fin 5, Fin 5, Fin 5])]\<rparr>"

definition ex_sp500 :: series where
  "ex_sp500 = [(0, Fin 100), (1, Fin 100), (2, Fin 100)]"

definition ex_vars :: vars where
  "ex_vars = metrics (joined ex_aprc ex_sp500) (benchmark ex_aprc ex_sp500) ex_sp500"

text \<open>
  The tail lengths as the specification lists them and the window they select.
\<close>

definition tail_points :: "string \<Rightarrow> nat option" where
  "tail_points selection =
     (if selection = ''LTD*'' then Some 1
      else if selection = ''3D'' then Some 3
      else if selection = ''7D'' then Some 7
      else if selection = ''14D'' then Some 14
      else if selection = ''21D'' then Some 21
      else if selection = ''50D'' then Some 50
      else None)"

definition window :: "string \<Rightarrow> 'a list \<Rightarrow> 'a list" where
  "window selection xs =
     (case tail_points selection of None \<Rightarrow> xs | Some n \<Rightarrow> drop (length xs - n) xs)"

text \<open>
  A longer table: 64 trading days, one sector whose price doubles on day 42, a constant
  benchmark; and the raw momentum it leads to.
\<close>

definition ex64_prices :: "fval list" where
  "ex64_prices = map (\<lambda>d. if d < 42 then Fin 1 else Fin 2) [0 ..< 64]"

definition ex64_aprc :: frame where
  "ex64_aprc = \<lparr>index = [0 ..< 64], columns = [(''IT'', ex64_prices)]\<rparr>"

definition ex64_sp500 :: series where
  "ex64_sp500 = map (\<lambda>d. (d, Fin 100)) [0 ..< 64]"

definition ex64_vars :: vars where
  "ex64_vars = metrics (joined ex64_aprc ex64_sp500) (benchmark ex64_aprc ex64_sp500) ex64_sp500"

definition ex64_mom :: "real list" where
  "ex64_mom = replicate 63 0 @ [ln 2]"

section \<open>Binary64 rounding on the RS path\<close>

text \<open>
  Whether a constant ratio column is standardized to 0 depends on the rounding of the
  doubles, so the three lines that compute \<^verbatim>\<open>rs\<close> are given a second time with every
  operation rounded as binary64 rounds it: to the nearest representable value, ties to
  the even mantissa, with 53 bits of mantissa, exponents from -1022 to 1023, gradual
  underflow below and infinity above. \<open>exponent x\<close> is the largest \<open>e\<close> in that range with
  \<open>2 powi e \<le> \<bar>x\<bar>\<close>, or -1022 when there is none. The sign of zero stays outside the model.
\<close>

definition round_half_even :: "real \<Rightarrow> int" where
  "round_half_even y =
     (let n = \<lfloor>y\<rfloor>; r = y - of_int n
      in if r < 1 / 2 then n else if 1 / 2 < r then n + 1 else if even n then n else n + 1)"

fun exponent_search :: "nat \<Rightarrow> real \<Rightarrow> int" where
  "exponent_search 0 x = - 1022"
| "exponent_search (Suc n) x =
     (if 2 powi (int (Suc n) - 1022) \<le> \<bar>x\<bar> then int (Suc n) - 1022 else exponent_search n x)"

definition exponent :: "real \<Rightarrow> int" where
  "exponent x = exponent_search 2045 x"

definition round_double :: "real \<Rightarrow> fval" where
  "round_double x =
     (let ulp = 2 powi (exponent x - 52);
          y = of_int (round_half_even (x / ulp)) * ulp
      in if 2 powi 1024 \<le> \<bar>y\<bar> then signed_inf (x < 0) else Fin y)"

text \<open>An operation on doubles returns its exact result, rounded.\<close>

fun rounded :: "fval \<Rightarrow> fval" where
  "rounded (Fin x) = round_double x"
| "rounded v = v"

definition div_axis0_double :: "frame \<Rightarrow> fval list \<Rightarrow> frame" where
  "div_axis0_double f col = map_columns (\<lambda>vs. map2 (\<lambda>x y. rounded (fdiv x y)) vs col) f"

definition mul_double :: "frame \<Rightarrow> real \<Rightarrow> frame" where
  "mul_double f k = map_columns (map (\<lambda>v. rounded (fmul v (Fin k)))) f"

text \<open>
  The sum of a column adds its values from left to right, which is the order of the
  additions for a column of fewer than eight values; for a longer column the library
  adds in blocks, the same rounded additions in another order.
\<close>

definition sum_double :: "fval list \<Rightarrow> fval" where
  "sum_double vs = foldl (\<lambda>s v. rounded (fadd s v)) (Fin 0) vs"

definition mean_double :: "fval list \<Rightarrow> fval" where
  "mean_double vs =
     (let xs = valid vs
      in if xs = [] then NaN else rounded (fdiv (sum_double xs) (Fin (real (length xs)))))"

definition var_double :: "fval list \<Rightarrow> fval" where
  "var_double vs =
     (let xs = valid vs; n = length xs
      in if n \<le> 1 then NaN
         else (let avg = rounded (fdiv (sum_double xs) (Fin (real n)))
               in rounded (fdiv (sum_double (map (\<lambda>v. rounded (fsquare (rounded (fsub avg v)))) xs))
                                (Fin (real (n - 1))))))"

definition std_double :: "fval list \<Rightarrow> fval" where
  "std_double vs = rounded (fsqrt (var_double vs))"

definition standardize_col_double :: "fval list \<Rightarrow> fval list" where
  "standardize_col_double vs =
     map (\<lambda>v. rounded (fdiv (rounded (fsub v (mean_double vs))) (std_double vs))) vs"

definition standardize_double :: "frame \<Rightarrow> frame" where
  "standardize_double f = map_columns standardize_col_double f"

text \<open>Lines 62 to 64 in doubles: the ratio table and the RS table.\<close>

record rs_vars =
  ratio64 :: frame
  rs64 :: frame

definition metrics_double :: "frame \<Rightarrow> fval list \<Rightarrow> rs_vars" where
  "metrics_double table bench =
     (let ratio = mul_double (div_axis0_double table bench) 100;
          rs = standardize_double ratio;
          rs = replace_nan rs
      in \<lparr>ratio64 = ratio, rs64 = rs\<rparr>)"

definition rrg_double :: "frame \<Rightarrow> series \<Rightarrow> error + rs_vars" where
  "rrg_double aprc0 sp500 =
     (case join aprc0 ''SP500'' sp500 of
        Inl e \<Rightarrow> Inl e
      | Inr table \<Rightarrow>
          (case getitem table ''SP500'' of
             Inl e \<Rightarrow> Inl e
           | Inr bench \<Rightarrow> Inr (metrics_double table bench)))"

text \<open>
  Three trading days with the benchmark at 1000: one sector at 1, whose ratio is the
  double nearest to 0.1, and one at 250, whose ratio is 25.
\<close>

definition ex3_aprc :: frame where
  "ex3_aprc = \<lparr>index = [0, 1, 2],
               columns = [(''XLK'', [Fin 1, Fin 1, Fin 1]), (''XLE'', [Fin 250, Fin 250, Fin 250])]\<rparr>"

definition ex3_sp500 :: series where
  "ex3_sp500 = [(0, Fin 1000), (1, Fin 1000), (2, Fin 1000)]"

definition ex3_vars :: rs_vars where
  "ex3_vars = metrics_double (joined ex3_aprc ex3_sp500) (benchmark ex3_aprc ex3_sp500)"

section \<open>Structure of the computed tables\<close>

lemma columns_map_columns [simp]:
  "columns (map_columns g f) = map (\<lambda>(c, vs). (c, g vs)) (columns f)"
  by (simp add: map_columns_def)

lemma index_map_columns [simp]: "index (map_columns g f) = index f"
  by (simp add: map_columns_def)

lemma map_columns_comp: "map_columns g (map_columns h f) = map_columns (\<lambda>vs. g (h vs)) f"
  by (simp add: map_columns_def case_prod_unfold)

lemma sub_frame_map_columns:
  "sub_frame (map_columns g f) (map_columns h f) = map_columns (\<lambda>vs. map2 fsub (g vs) (h vs)) f"
  by (simp add: sub_frame_def map_columns_def zip_map_map case_prod_unfold zip_same_conv_map)

lemma getitem_map_columns:
  "getitem (map_columns g f) c = (case getitem f c of Inl e \<Rightarrow> Inl e | Inr vs \<Rightarrow> Inr (g vs))"
  by (simp add: getitem_def map_of_map split: option.splits)

lemma getitem_mem: "getitem f c = Inr vs \<Longrightarrow> (c, vs) \<in> set (columns f)"
  by (auto simp: getitem_def split: option.splits dest: map_of_SomeD)

lemma rrg_Inr:
  "rrg aprc0 sp500 = Inr v \<longleftrightarrow>
     ''SP500'' \<notin> set (names aprc0) \<and>
     v = metrics (joined aprc0 sp500) (benchmark aprc0 sp500) sp500"
proof (cases "''SP500'' \<in> set (names aprc0)")
  case True
  then show ?thesis by (simp add: rrg_def join_def)
next
  case False
  then have "map_of (columns aprc0) ''SP500'' = None"
    by (simp add: names_def map_of_eq_None_iff)
  with False show ?thesis
    by (auto simp: rrg_def join_def getitem_def joined_def benchmark_def map_add_def)
qed

lemma rs_metrics: "rs (metrics j b s) = map_columns (rs_col b) j"
  by (simp add: metrics_def Let_def replace_nan_def standardize_def mul_def div_axis0_def
      map_columns_comp rs_col_def ratio_col_def)

lemma rs_ratio_metrics: "rs_ratio (metrics j b s) = map_columns (ratio_col b) j"
  by (simp add: metrics_def Let_def mul_def div_axis0_def map_columns_comp ratio_col_def)

lemma mom_raw_metrics: "mom_raw (metrics j b s) = dropna (mul (div_series j s) 100)"
  by (simp add: metrics_def Let_def)

lemma mom3_metrics: "mom3 (metrics j b s) = pct_change 63 (mom_raw (metrics j b s))"
  by (simp add: metrics_def Let_def)

lemma mom1_metrics: "mom1 (metrics j b s) = pct_change 21 (mom_raw (metrics j b s))"
  by (simp add: metrics_def Let_def)

lemma mom_metrics: "mom (metrics j b s) = map_columns mom_col (mom_raw (metrics j b s))"
  by (simp add: metrics_def Let_def replace_nan_def pct_change_def radd_def log_frame_def
      map_columns_comp sub_frame_map_columns mom_col_def)

lemma rs_mom_metrics: "rs_mom (metrics j b s) = map_columns rs_mom_col (mom_raw (metrics j b s))"
  by (simp add: metrics_def Let_def replace_nan_def pct_change_def radd_def log_frame_def standardize_def
      map_columns_comp sub_frame_map_columns mom_col_def rs_mom_col_def)

lemma nan_to_zero_not_nan: "\<not> isnan (nan_to_zero v)"
  by (cases v) (simp_all add: nan_to_zero_def)

lemma rrg_ex: "rrg ex_aprc ex_sp500 = Inr ex_vars"
  by (simp add: rrg_Inr ex_vars_def names_def ex_aprc_def)

section \<open>Arithmetic of windows and missing values\<close>

lemma fdiv_NaN_right [simp]: "fdiv x NaN = NaN"
  by (cases x) simp_all

lemma fadd_NaN_right [simp]: "fadd x NaN = NaN"
  by (cases x) simp_all

lemma fsub_NaN [simp]: "fsub NaN y = NaN" "fsub x NaN = NaN"
  by (simp_all add: fsub_def)

lemma nan_to_zero_simps [simp]:
  "nan_to_zero NaN = Fin 0" "nan_to_zero (Fin a) = Fin a"
  "nan_to_zero PInf = PInf" "nan_to_zero NInf = NInf"
  by (simp_all add: nan_to_zero_def)

lemma length_ffill [simp]: "length (ffill p vs) = length vs"
  by (induction vs arbitrary: p) simp_all

lemma ffill_id: "\<forall>x \<in> set vs. \<not> isnan x \<Longrightarrow> ffill p vs = vs"
  by (induction vs arbitrary: p) simp_all

lemma length_shift [simp]: "length (shift p vs) = length vs"
  by (simp add: shift_def)

lemma nth_shift: "t < length vs \<Longrightarrow> shift p vs ! t = (if t < p then NaN else vs ! (t - p))"
  by (auto simp: shift_def nth_append)

lemma length_pct_change_col [simp]: "length (pct_change_col p vs) = length vs"
  by (simp add: pct_change_col_def Let_def)

lemma nth_pct_change_col:
  assumes "t < length vs" and "\<forall>x \<in> set vs. \<not> isnan x"
  shows "pct_change_col p vs ! t = (if p \<le> t then fsub (fdiv (vs ! t) (vs ! (t - p))) (Fin 1) else NaN)"
  using assms by (simp add: pct_change_col_def Let_def ffill_id nth_shift)

lemma pct_change_col_early: "t < length vs \<Longrightarrow> t < p \<Longrightarrow> pct_change_col p vs ! t = NaN"
  by (simp add: pct_change_col_def Let_def nth_shift)

lemma length_mom_col [simp]: "length (mom_col r) = length r"
  by (simp add: mom_col_def)

lemma nth_mom_col:
  "t < length r \<Longrightarrow>
   mom_col r ! t =
     nan_to_zero (fsub (flog (fadd (Fin 1) (pct_change_col 63 r ! t)))
                       (flog (fadd (Fin 1) (pct_change_col 21 r ! t))))"
  by (simp add: mom_col_def)

lemma mom_col_early: "t < length r \<Longrightarrow> t < 63 \<Longrightarrow> mom_col r ! t = Fin 0"
  by (simp add: nth_mom_col pct_change_col_early)

lemma set_select:
  "set (select keep xs) = {xs ! k | k. k < length xs \<and> k < length keep \<and> keep ! k}"
  by (auto simp: select_def set_zip image_iff) force

lemma dropna_no_nan:
  assumes "(c, vs) \<in> set (columns (dropna f))" and "x \<in> set vs"
  shows "\<not> isnan x"
proof -
  from assms(1) obtain ws where ws: "(c, ws) \<in> set (columns f)"
    and vs: "vs = select (map (row_complete f) [0 ..< length (index f)]) ws"
    by (auto simp: dropna_def Let_def)
  from assms(2) vs obtain k where k: "k < length ws" "k < length (index f)" "row_complete f k" "x = ws ! k"
    by (auto simp: set_select)
  from k(3) ws have "\<not> isnan (ws ! k)"
    by (auto simp: row_complete_def list_all_iff)
  with k(4) show ?thesis by simp
qed

lemma length_select:
  "length keep = length xs \<Longrightarrow> length (select keep xs) = length (filter id keep)"
proof (induction xs arbitrary: keep)
  case Nil
  then show ?case by (simp add: select_def)
next
  case (Cons x xs)
  then obtain b bs where "keep = b # bs" by (cases keep) auto
  with Cons show ?case by (auto simp: select_def)
qed

section \<open>Alignment of the momentum table\<close>

lemma select_map:
  "select (map P xs) (map h xs) = map h (filter P xs)"
  by (induction xs) (simp_all add: select_def)

lemma select_Nil [simp]: "select keep [] = []"
  by (simp add: select_def)

lemma select_Cons [simp]: "select (b # keep) (x # xs) = (if b then x # select keep xs else select keep xs)"
  by (simp add: select_def)

lemma select_map_id: "select (map P xs) xs = filter P xs"
  by (induction xs) simp_all

lemma map_nth_upt: "map (\<lambda>k. g (xs ! k)) [0 ..< length xs] = map g xs"
  by (rule nth_equalityI) simp_all

lemma dropna_tabulated:
  assumes "F = \<lparr>index = ix, columns = map (\<lambda>(c, w). (c, map (g w) ix)) cs\<rparr>"
  defines "P \<equiv> \<lambda>d. list_all (\<lambda>(c, w). \<not> isnan (g w d)) cs"
  shows "dropna F = \<lparr>index = filter P ix, columns = map (\<lambda>(c, w). (c, map (g w) (filter P ix))) cs\<rparr>"
proof -
  have cols: "columns F = map (\<lambda>(c, w). (c, map (g w) ix)) cs" and ix: "index F = ix"
    by (simp_all add: assms(1))
  have "row_complete F k = P (ix ! k)" if "k < length ix" for k
    unfolding row_complete_def cols P_def using that
    by (induction cs) auto
  then have keep: "map (row_complete F) [0 ..< length (index F)] = map P ix"
    unfolding ix by (intro nth_equalityI) simp_all
  show ?thesis
    unfolding dropna_def Let_def cols ix using keep [unfolded ix]
    by (simp add: select_map select_map_id case_prod_unfold)
qed

lemma mul_div_series:
  "mul (div_series f s) 100 =
     \<lparr>index = union_index (index f) (map fst s),
      columns = map (\<lambda>(c, vs). (c, map (ratio_at f s vs) (union_index (index f) (map fst s)))) (columns f)\<rparr>"
  by (simp add: mul_def div_series_def Let_def map_columns_def ratio_at_def case_prod_unfold)

lemma dropna_mul_div_series:
  "dropna (mul (div_series f s) 100) =
     \<lparr>index = filter (row_defined f s) (union_index (index f) (map fst s)),
      columns = map (\<lambda>(c, vs). (c, map (ratio_at f s vs)
                    (filter (row_defined f s) (union_index (index f) (map fst s))))) (columns f)\<rparr>"
  using dropna_tabulated [OF mul_div_series, of f s]
  by (simp add: row_defined_def [abs_def])

lemma isnan_iff: "isnan x \<longleftrightarrow> x = NaN"
  by (cases x) simp_all

lemma isnan_fmul_left: "isnan x \<Longrightarrow> isnan (fmul x y)"
  by (simp add: isnan_iff)

lemma isnan_fdiv_left: "isnan x \<Longrightarrow> isnan (fdiv x y)"
  by (simp add: isnan_iff)

lemma isnan_fdiv_right: "isnan y \<Longrightarrow> isnan (fdiv x y)"
  by (simp add: isnan_iff)

lemma lookup_zip_nth:
  "distinct ix \<Longrightarrow> length vs = length ix \<Longrightarrow> k < length ix \<Longrightarrow> lookup (zip ix vs) (ix ! k) = vs ! k"
  by (simp add: lookup_def map_of_zip_nth)

lemma lookup_zip_notin: "d \<notin> set ix \<Longrightarrow> lookup (zip ix vs) d = NaN"
proof -
  assume "d \<notin> set ix"
  then have "d \<notin> fst ` set (zip ix vs)"
    by (auto dest: set_zip_leftD)
  then have "map_of (zip ix vs) d = None"
    by (simp add: map_of_eq_None_iff)
  then show ?thesis by (simp add: lookup_def)
qed

lemma ratio_at_defined:
  assumes "\<not> isnan (ratio_at f s vs d)"
  shows "d \<in> set (index f) \<and> \<not> isnan (lookup (zip (index f) vs) d) \<and> \<not> isnan (lookup s d)"
proof -
  from assms have "\<not> isnan (fdiv (lookup (zip (index f) vs) d) (lookup s d))"
    unfolding ratio_at_def using isnan_fmul_left by blast
  then have *: "\<not> isnan (lookup (zip (index f) vs) d)" "\<not> isnan (lookup s d)"
    using isnan_fdiv_left isnan_fdiv_right by blast+
  from *(1) have "d \<in> set (index f)"
    using lookup_zip_notin [of d "index f" vs] by (cases "d \<in> set (index f)") simp_all
  with * show ?thesis by simp
qed

lemma ratio_col_tabulated:
  assumes "distinct (index f)" and "length vs = length (index f)"
  shows "ratio_col (map (lookup s) (index f)) vs = map (ratio_at f s vs) (index f)"
  using assms
  by (intro nth_equalityI) (simp_all add: ratio_col_def ratio_at_def lookup_zip_nth)

lemma filter_union_index:
  assumes "ascending ix" and "\<And>d. P d \<Longrightarrow> d \<in> set ix"
  shows "filter P (union_index ix ys) = filter P ix"
proof (cases "ix = ys")
  case True
  then show ?thesis by (simp add: union_index_def)
next
  case False
  from assms(1) have sd: "sorted ix" "distinct ix"
    by (simp_all add: ascending_def strict_sorted_iff)
  have "filter P (sort (remdups (ix @ ys))) = filter P ix"
  proof (rule sorted_distinct_set_unique)
    show "set (filter P (sort (remdups (ix @ ys)))) = set (filter P ix)"
      using assms(2) by auto
  qed (use sd in \<open>simp_all add: sorted_filter [where f = "\<lambda>x. x", simplified]\<close>)
  with False show ?thesis by (simp add: union_index_def)
qed

lemma rectangular_joined: "rectangular aprc0 \<Longrightarrow> rectangular (joined aprc0 sp500)"
  by (simp add: rectangular_def joined_def)

lemma index_joined [simp]: "index (joined aprc0 sp500) = index aprc0"
  by (simp add: joined_def)

lemma row_defined_joined_mem:
  assumes "row_defined (joined aprc0 sp500) sp500 d"
  shows "d \<in> set (index aprc0)"
proof -
  from assms have "\<not> isnan (ratio_at (joined aprc0 sp500) sp500 (benchmark aprc0 sp500) d)"
    by (simp add: row_defined_def joined_def benchmark_def)
  from ratio_at_defined [OF this] show ?thesis by simp
qed

lemma rs_ratio_tabulated:
  assumes "distinct (index j)" and "rectangular j"
  shows "map_columns (ratio_col (map (lookup s) (index j))) j =
           \<lparr>index = index j, columns = map (\<lambda>(c, vs). (c, map (ratio_at j s vs) (index j))) (columns j)\<rparr>"
proof -
  have "map (\<lambda>(c, vs). (c, ratio_col (map (lookup s) (index j)) vs)) (columns j) =
        map (\<lambda>(c, vs). (c, map (ratio_at j s vs) (index j))) (columns j)"
    using assms by (auto simp: rectangular_def list_all_iff ratio_col_tabulated)
  then show ?thesis by (simp add: map_columns_def)
qed

lemma mom_raw_aligned:
  assumes "rrg aprc0 sp500 = Inr v" and "ascending (index aprc0)" and "rectangular aprc0"
  shows "mom_raw v = dropna (rs_ratio v)"
    and "index (mom_raw v) = filter (row_defined (joined aprc0 sp500) sp500) (index aprc0)"
proof -
  let ?j = "joined aprc0 sp500"
  from assms(1) have v: "v = metrics ?j (benchmark aprc0 sp500) sp500"
    by (simp add: rrg_Inr)
  from assms(2) have d: "distinct (index ?j)"
    by (simp add: ascending_def strict_sorted_iff)
  have f: "filter (row_defined ?j sp500) (union_index (index ?j) (map fst sp500)) =
           filter (row_defined ?j sp500) (index ?j)"
    using assms(2) by (intro filter_union_index) (simp_all add: row_defined_joined_mem)
  have "rs_ratio v = \<lparr>index = index ?j,
          columns = map (\<lambda>(c, vs). (c, map (ratio_at ?j sp500 vs) (index ?j))) (columns ?j)\<rparr>"
    unfolding v rs_ratio_metrics benchmark_def
    using rs_ratio_tabulated [OF d rectangular_joined [OF assms(3)], of sp500] by simp
  from dropna_tabulated [OF this]
  have "dropna (rs_ratio v) = dropna (mul (div_series ?j sp500) 100)"
    unfolding dropna_mul_div_series f by (simp add: row_defined_def [abs_def])
  then show "mom_raw v = dropna (rs_ratio v)"
    by (simp add: v mom_raw_metrics)
  show "index (mom_raw v) = filter (row_defined ?j sp500) (index aprc0)"
    unfolding v mom_raw_metrics dropna_mul_div_series using f by simp
qed

section \<open>Mean and standard deviation\<close>

lemma fsum_Nil [simp]: "fsum [] = Fin 0"
  by (simp add: fsum_def)

lemma fsum_Cons [simp]: "fsum (v # vs) = fadd v (fsum vs)"
  by (simp add: fsum_def)

lemma fsum_map_Fin: "fsum (map Fin xs) = Fin (sum_list xs)"
  by (induction xs) simp_all

lemma fsum_NaN: "NaN \<in> set vs \<Longrightarrow> fsum vs = NaN"
  by (induction vs) auto

lemma fsum_PInf: "PInf \<in> set vs \<Longrightarrow> fsum vs = PInf \<or> fsum vs = NaN"
proof (induction vs)
  case Nil
  then show ?case by simp
next
  case (Cons v vs)
  then show ?case by (cases v; cases "fsum vs") auto
qed

lemma fsum_NInf: "NInf \<in> set vs \<Longrightarrow> fsum vs = NInf \<or> fsum vs = NaN"
proof (induction vs)
  case Nil
  then show ?case by simp
next
  case (Cons v vs)
  then show ?case by (cases v; cases "fsum vs") auto
qed

lemma valid_no_nan: "x \<in> set (valid vs) \<Longrightarrow> \<not> isnan x"
  by (simp add: valid_def)

lemma valid_mem: "x \<in> set vs \<Longrightarrow> \<not> isnan x \<Longrightarrow> x \<in> set (valid vs)"
  by (simp add: valid_def)

lemma all_Fin_map: "(\<forall>v \<in> set vs. \<exists>x. v = Fin x) \<Longrightarrow> \<exists>xs. vs = map Fin xs"
proof (induction vs)
  case Nil
  then show ?case by simp
next
  case (Cons v vs)
  then obtain x xs where "v = Fin x" "vs = map Fin xs" by auto
  then have "v # vs = map Fin (x # xs)" by simp
  then show ?case by (rule exI [of _ "x # xs"])
qed

lemma var_infinite:
  assumes "v \<in> set (valid vs)" and "v = PInf \<or> v = NInf"
  shows "var vs = NaN"
proof (cases "length (valid vs) \<le> 1")
  case True
  then show ?thesis by (simp add: var_def Let_def)
next
  case False
  define n where "n = length (valid vs)"
  define avg where "avg = fdiv (fsum (valid vs)) (Fin (real n))"
  from False have n: "0 < real n" by (cases "valid vs") (simp_all add: n_def)
  have "fsquare (fsub avg v) = NaN"
  proof -
    from assms fsum_PInf [of "valid vs"] fsum_NInf [of "valid vs"]
    consider "fsum (valid vs) = NaN" | "v = PInf" "fsum (valid vs) = PInf" | "v = NInf" "fsum (valid vs) = NInf"
      by auto
    then show ?thesis
      using n by cases (simp_all add: avg_def fsub_def signed_inf_def)
  qed
  with assms(1) have "NaN \<in> set (map (\<lambda>v. fsquare (fsub avg v)) (valid vs))"
    by (metis (no_types, lifting) image_eqI list.set_map)
  then have "fsum (map (\<lambda>v. fsquare (fsub avg v)) (valid vs)) = NaN"
    by (rule fsum_NaN)
  then have "fdiv (fsum (map (\<lambda>v. fsquare (fsub avg v)) (valid vs))) (Fin (real (n - 1))) = NaN"
    by simp
  with False show ?thesis
    unfolding var_def Let_def avg_def n_def by simp
qed

lemma std_not_nan_finite:
  assumes "std vs \<noteq> NaN"
  shows "\<exists>xs. valid vs = map Fin xs \<and> 2 \<le> length xs"
proof -
  from assms have var: "var vs \<noteq> NaN"
    by (auto simp: std_def)
  have "\<exists>x. v = Fin x" if "v \<in> set (valid vs)" for v
  proof (cases v)
    case NaN
    with that valid_no_nan [of v vs] show ?thesis by simp
  qed (use that var var_infinite [of v vs] in auto)
  then obtain xs where xs: "valid vs = map Fin xs"
    using all_Fin_map by blast
  from var have "\<not> length (valid vs) \<le> 1"
    by (auto simp: var_def Let_def)
  with xs show ?thesis by auto
qed

lemma mean_finite:
  assumes "valid vs = map Fin xs" and "xs \<noteq> []"
  shows "mean vs = Fin (spec_mean xs)"
  using assms by (simp add: mean_def Let_def fsum_map_Fin spec_mean_def)

lemma var_finite:
  assumes "valid vs = map Fin xs" and "2 \<le> length xs"
  shows "var vs = Fin (sum_list (map (\<lambda>x. (x - spec_mean xs)\<^sup>2) xs) / real (length xs - 1))"
proof -
  define m where "m = spec_mean xs"
  define k where "k = real (length xs - 1)"
  have sq: "map (\<lambda>v. fsquare (fsub (Fin m) v)) (map Fin xs) = map Fin (map (\<lambda>x. (x - m)\<^sup>2) xs)"
    by (simp add: fsub_def power2_eq_square algebra_simps)
  from assms(2) have n: "real (length xs) \<noteq> 0" "k \<noteq> 0" "\<not> length xs \<le> 1"
    by (auto simp: k_def)
  have avg: "fdiv (fsum (map Fin xs)) (Fin (real (length xs))) = Fin m"
    using n(1) by (simp add: fsum_map_Fin spec_mean_def m_def)
  have "var vs = fdiv (fsum (map (\<lambda>v. fsquare (fsub (Fin m) v)) (map Fin xs))) (Fin k)"
    unfolding var_def Let_def assms(1) length_map avg k_def using n(3) by (simp only: if_False)
  also have "\<dots> = fdiv (Fin (sum_list (map (\<lambda>x. (x - m)\<^sup>2) xs))) (Fin k)"
    by (simp only: sq fsum_map_Fin)
  also have "\<dots> = Fin (sum_list (map (\<lambda>x. (x - m)\<^sup>2) xs) / k)"
    using n(2) by simp
  finally show ?thesis by (simp only: m_def k_def)
qed

lemma std_finite:
  assumes "valid vs = map Fin xs" and "2 \<le> length xs"
  shows "std vs = Fin (spec_stddev xs)"
proof -
  have "0 \<le> sum_list (map (\<lambda>x. (x - spec_mean xs)\<^sup>2) xs)"
    by (rule sum_list_nonneg) auto
  then have "\<not> sum_list (map (\<lambda>x. (x - spec_mean xs)\<^sup>2) xs) / real (length xs - 1) < 0"
    by (simp add: not_less)
  then show ?thesis
    unfolding std_def var_finite [OF assms] spec_stddev_def by simp
qed

lemma spec_stddev_zero:
  assumes "2 \<le> length xs" and "spec_stddev xs = 0" and "x \<in> set xs"
  shows "x = spec_mean xs"
proof -
  let ?sq = "map (\<lambda>x. (x - spec_mean xs)\<^sup>2) xs"
  from assms(1) have "real (length xs - 1) \<noteq> 0" by auto
  with assms(2) have "sum_list ?sq = 0"
    by (simp add: spec_stddev_def)
  moreover have "sum_list ?sq = 0 \<longleftrightarrow> (\<forall>y \<in> set ?sq. y = 0)"
    by (rule sum_list_nonneg_eq_0_iff) auto
  ultimately have "\<forall>y \<in> set ?sq. y = 0"
    by blast
  with assms(3) show ?thesis by auto
qed

lemma standardized_defined:
  assumes "valid r = map Fin xs" and "2 \<le> length xs" and "spec_stddev xs \<noteq> 0" and "r ! t = Fin x"
  shows "standardized r t = Fin ((x - spec_mean xs) / spec_stddev xs)"
proof -
  from assms(2) have "xs \<noteq> []" by auto
  then show ?thesis
    unfolding standardized_def mean_finite [OF assms(1) \<open>xs \<noteq> []\<close>] std_finite [OF assms(1,2)] assms(4)
    using assms(3) by (simp add: fsub_def)
qed

lemma standardized_undefined:
  assumes "t < length r"
    and "\<not> (\<exists>xs x. valid r = map Fin xs \<and> 2 \<le> length xs \<and> spec_stddev xs \<noteq> 0 \<and> r ! t = Fin x)"
  shows "standardized r t = Fin 0"
proof (cases "std r = NaN")
  case True
  then show ?thesis by (simp add: standardized_def)
next
  case False
  then obtain xs where xs: "valid r = map Fin xs" "2 \<le> length xs"
    using std_not_nan_finite by blast
  then have ne: "xs \<noteq> []" by auto
  note ms = mean_finite [OF xs(1) ne] std_finite [OF xs]
  show ?thesis
  proof (cases "r ! t")
    case (Fin x)
    with assms(2) xs have zero: "spec_stddev xs = 0" by blast
    from Fin assms(1) have "Fin x \<in> set (valid r)"
      by (metis isnan.simps(2) nth_mem valid_mem)
    with xs(1) have "x \<in> set xs" by auto
    from spec_stddev_zero [OF xs(2) zero this] show ?thesis
      unfolding standardized_def ms Fin using zero by (simp add: fsub_def)
  next
    case NaN
    then show ?thesis by (simp add: standardized_def)
  next
    case PInf
    with assms(1) have "PInf \<in> set (valid r)"
      by (metis isnan.simps(3) nth_mem valid_mem)
    with xs(1) show ?thesis by auto
  next
    case NInf
    with assms(1) have "NInf \<in> set (valid r)"
      by (metis isnan.simps(4) nth_mem valid_mem)
    with xs(1) show ?thesis by auto
  qed
qed

lemma nth_standardize_col:
  "t < length r \<Longrightarrow> map nan_to_zero (standardize_col r) ! t = standardized r t"
  by (simp add: standardize_col_def standardized_def)

section \<open>Columns of the computed tables\<close>

lemma getitem_joined:
  "getitem aprc0 c = Inr ps \<Longrightarrow> getitem (joined aprc0 sp500) c = Inr ps"
  by (auto simp: getitem_def joined_def map_add_def split: option.splits)

lemma length_ratio_col: "length (ratio_col b ps) = min (length ps) (length b)"
  by (simp add: ratio_col_def)

lemma nth_ratio_col:
  "t < length ps \<Longrightarrow> t < length b \<Longrightarrow> ratio_col b ps ! t = fmul (fdiv (ps ! t) (b ! t)) (Fin 100)"
  by (simp add: ratio_col_def)

lemma length_rs_col: "length (rs_col b ps) = length (ratio_col b ps)"
  by (simp add: rs_col_def standardize_col_def)

lemma nth_rs_col: "t < length (ratio_col b ps) \<Longrightarrow> rs_col b ps ! t = standardized (ratio_col b ps) t"
  by (simp add: rs_col_def nth_standardize_col)

lemma rs_ratio_column:
  assumes "rrg aprc0 sp500 = Inr v" and "getitem (rs_ratio v) c = Inr r"
  shows "getitem (rs v) c = Inr (map nan_to_zero (standardize_col r))"
  using assms
  by (auto simp: rrg_Inr rs_metrics rs_ratio_metrics getitem_map_columns rs_col_def split: sum.splits)

lemma mom_raw_columns:
  assumes "rrg aprc0 sp500 = Inr v" and "(c, r) \<in> set (columns (mom_raw v))"
  shows "length r = length (index (mom_raw v))" and "\<forall>x \<in> set r. \<not> isnan x"
proof -
  from assms(1) have v: "mom_raw v = dropna (mul (div_series (joined aprc0 sp500) sp500) 100)"
    by (simp add: rrg_Inr mom_raw_metrics)
  from assms(2) show "length r = length (index (mom_raw v))"
    unfolding v dropna_mul_div_series by auto
  from assms(2) show "\<forall>x \<in> set r. \<not> isnan x"
    unfolding v using dropna_no_nan by blast
qed

lemma mom_column:
  assumes "rrg aprc0 sp500 = Inr v" and "getitem (mom_raw v) c = Inr r"
  shows "getitem (mom3 v) c = Inr (pct_change_col 63 r)"
    and "getitem (mom1 v) c = Inr (pct_change_col 21 r)"
    and "getitem (mom v) c = Inr (mom_col r)"
    and "getitem (rs_mom v) c = Inr (rs_mom_col r)"
  using assms
  by (auto simp: rrg_Inr mom3_metrics mom1_metrics mom_metrics rs_mom_metrics pct_change_def
      getitem_map_columns)

lemma flog_shifted:
  assumes "0 < a" and "0 < b"
  shows "flog (Fin (1 + (a / b - 1))) = Fin (ln (1 + (a / b - 1)))"
proof -
  define u where "u = 1 + (a / b - 1)"
  have "0 < a / b" using assms by (rule divide_pos_pos)
  then have "0 < u" by (simp add: u_def)
  then have "flog (Fin u) = Fin (ln u)" by simp
  then show ?thesis by (simp only: u_def)
qed

lemma rrg_ex64: "rrg ex64_aprc ex64_sp500 = Inr ex64_vars"
  by (simp add: rrg_Inr ex64_vars_def names_def ex64_aprc_def)

lemma lookup_tabulated: "lookup (map (\<lambda>d. (d, h d)) ds) d = (if d \<in> set ds then h d else NaN)"
  by (simp add: lookup_def map_of_map_restrict restrict_map_def)

lemma lookup_zip_map: "lookup (zip ds (map h ds)) d = (if d \<in> set ds then h d else NaN)"
proof -
  have "zip ds (map h ds) = map (\<lambda>d. (d, h d)) ds"
    by (induction ds) simp_all
  then show ?thesis by (simp add: lookup_tabulated)
qed

lemma ex64_bench: "benchmark ex64_aprc ex64_sp500 = map (\<lambda>d. Fin 100) [0 ..< 64]"
  unfolding benchmark_def ex64_aprc_def ex64_sp500_def
  by (simp add: lookup_tabulated)

lemma ex64_ratio_IT: "ratio_col (benchmark ex64_aprc ex64_sp500) ex64_prices = ex64_prices"
  unfolding ex64_bench ex64_prices_def ratio_col_def
  by (simp add: zip_map_map zip_same_conv_map)

lemma ex64_ratio_SP: "ratio_col (benchmark ex64_aprc ex64_sp500) (benchmark ex64_aprc ex64_sp500) = map (\<lambda>d. Fin 100) [0 ..< 64]"
  unfolding ex64_bench ratio_col_def
  by (simp add: zip_map_map zip_same_conv_map)

lemma ex64_joined:
  "joined ex64_aprc ex64_sp500 =
     \<lparr>index = [0 ..< 64],
      columns = [(''IT'', ex64_prices), (''SP500'', benchmark ex64_aprc ex64_sp500)]\<rparr>"
  by (simp add: joined_def benchmark_def ex64_aprc_def)

lemma ex64_rs_ratio:
  "rs_ratio ex64_vars =
     \<lparr>index = [0 ..< 64],
      columns = [(''IT'', ex64_prices), (''SP500'', map (\<lambda>d. Fin 100) [0 ..< 64])]\<rparr>"
  unfolding ex64_vars_def rs_ratio_metrics ex64_joined
  by (simp add: map_columns_def ex64_ratio_IT ex64_ratio_SP)

lemma dropna_complete:
  assumes "rectangular f" and "\<forall>(c, vs) \<in> set (columns f). \<forall>x \<in> set vs. \<not> isnan x"
  shows "dropna f = f"
proof -
  have "row_complete f k" if "k < length (index f)" for k
    unfolding row_complete_def list_all_iff
  proof (intro ballI, clarify)
    fix c vs
    assume m: "(c, vs) \<in> set (columns f)" and n: "isnan (vs ! k)"
    from m assms(1) that have "k < length vs"
      by (auto simp: rectangular_def list_all_iff)
    then have "vs ! k \<in> set vs" by simp
    with m assms(2) n show False by blast
  qed
  then have keep: "map (row_complete f) [0 ..< length (index f)] = map (\<lambda>k. True) [0 ..< length (index f)]"
    by simp
  have sel: "select (map (\<lambda>k. True) [0 ..< length xs]) xs = xs" for xs :: "'a list"
    using select_map_id [of "\<lambda>x. True" xs] by (simp add: map_replicate_const)
  have col: "select (map (\<lambda>k. True) [0 ..< length (index f)]) vs = vs"
    if "(c, vs) \<in> set (columns f)" for c vs
  proof -
    from that assms(1) have "length (index f) = length vs"
      by (auto simp: rectangular_def list_all_iff)
    then show ?thesis by (simp only: sel)
  qed
  have "map (\<lambda>(c, vs). (c, select (map (\<lambda>k. True) [0 ..< length (index f)]) vs)) (columns f) = columns f"
    by (rule map_idI) (auto simp: col)
  then show ?thesis
    unfolding dropna_def Let_def keep by (simp add: sel)
qed

lemma ex64_no_nan: "\<forall>x \<in> set ex64_prices. \<not> isnan x"
  by (auto simp: ex64_prices_def)

lemma ex64_mom_raw:
  "mom_raw ex64_vars =
     \<lparr>index = [0 ..< 64],
      columns = [(''IT'', ex64_prices), (''SP500'', map (\<lambda>d. Fin 100) [0 ..< 64])]\<rparr>"
proof -
  have a: "ascending (index ex64_aprc)"
    by (simp add: ascending_def ex64_aprc_def strict_sorted_iff)
  have r: "rectangular ex64_aprc"
    by (simp add: rectangular_def ex64_aprc_def ex64_prices_def)
  have "dropna (rs_ratio ex64_vars) = rs_ratio ex64_vars"
    unfolding ex64_rs_ratio using ex64_no_nan
    by (intro dropna_complete) (auto simp: rectangular_def ex64_prices_def)
  with mom_raw_aligned(1) [OF rrg_ex64 a r] show ?thesis
    by (simp add: ex64_rs_ratio)
qed

lemma ex64_prices_nth:
  "ex64_prices ! 0 = Fin 1" "ex64_prices ! 42 = Fin 2" "ex64_prices ! 63 = Fin 2"
  by (simp_all add: ex64_prices_def)

lemma ex64_mom_col: "mom_col ex64_prices = map Fin ex64_mom"
proof (rule nth_equalityI)
  show "length (mom_col ex64_prices) = length (map Fin ex64_mom)"
    by (simp add: ex64_prices_def ex64_mom_def)
next
  fix t
  assume "t < length (mom_col ex64_prices)"
  then have t: "t < 64" by (simp add: ex64_prices_def)
  have len: "length ex64_prices = 64" by (simp add: ex64_prices_def)
  show "mom_col ex64_prices ! t = map Fin ex64_mom ! t"
  proof (cases "t < 63")
    case True
    then show ?thesis
      by (simp add: mom_col_early len ex64_mom_def nth_append)
  next
    case False
    with t have t63: "t = 63" by simp
    have l: "63 < length ex64_prices" by (simp add: len)
    have p3: "pct_change_col 63 ex64_prices ! 63 = Fin 1"
      using nth_pct_change_col [OF l ex64_no_nan, of 63] by (simp add: ex64_prices_nth fsub_def)
    have p1: "pct_change_col 21 ex64_prices ! 63 = Fin 0"
      using nth_pct_change_col [OF l ex64_no_nan, of 21] by (simp add: ex64_prices_nth fsub_def)
    have "mom_col ex64_prices ! 63 = Fin (ln 2)"
      unfolding nth_mom_col [OF l] p3 p1 by (simp add: fsub_def)
    then show ?thesis
      by (simp add: t63 ex64_mom_def nth_append)
  qed
qed

lemma ex64_spec_mean: "spec_mean ex64_mom = ln 2 / 64"
  by (simp add: spec_mean_def ex64_mom_def sum_list_replicate)

lemma ex64_spec_stddev: "spec_stddev ex64_mom = ln 2 / 8"
proof -
  define L :: real where "L = ln 2"
  have L: "0 < L" by (simp add: L_def)
  have "sum_list (map (\<lambda>x. (x - L / 64)\<^sup>2) (replicate 63 0 @ [L])) = 63 * (L / 64)\<^sup>2 + (L - L / 64)\<^sup>2"
    by (simp add: sum_list_replicate)
  also have "\<dots> = 63 * (L / 8)\<^sup>2"
    by (simp add: power2_eq_square field_simps)
  finally have "sum_list (map (\<lambda>x. (x - L / 64)\<^sup>2) (replicate 63 0 @ [L])) / 63 = (L / 8)\<^sup>2"
    by simp
  then have "sqrt (sum_list (map (\<lambda>x. (x - L / 64)\<^sup>2) (replicate 63 0 @ [L])) / 63) = L / 8"
    using L by simp
  then show ?thesis
    unfolding spec_stddev_def ex64_spec_mean unfolding ex64_mom_def L_def by simp
qed

lemma ex64_rs_mom_col:
  "rs_mom_col ex64_prices = replicate 63 (Fin (- 1 / 8)) @ [Fin (63 / 8)]"
proof (rule nth_equalityI)
  show "length (rs_mom_col ex64_prices) = length (replicate 63 (Fin (- 1 / 8)) @ [Fin (63 / 8)])"
    by (simp add: rs_mom_col_def standardize_col_def ex64_prices_def)
next
  fix t
  assume "t < length (rs_mom_col ex64_prices)"
  then have t: "t < 64"
    by (simp add: rs_mom_col_def standardize_col_def ex64_prices_def)
  have L: "ln (2 :: real) \<noteq> 0" by simp
  have v: "valid (map Fin ex64_mom) = map Fin ex64_mom"
    by (simp add: valid_def)
  have n: "2 \<le> length ex64_mom" by (simp add: ex64_mom_def)
  have s: "spec_stddev ex64_mom \<noteq> 0" by (simp add: ex64_spec_stddev)
  have tl: "t < length (map Fin ex64_mom)" using t by (simp add: ex64_mom_def)
  have e: "map Fin ex64_mom ! t = Fin (ex64_mom ! t)"
    using tl by simp
  have "rs_mom_col ex64_prices ! t = standardized (map Fin ex64_mom) t"
    unfolding rs_mom_col_def ex64_mom_col using tl by (rule nth_standardize_col)
  also have "\<dots> = Fin ((ex64_mom ! t - ln 2 / 64) / (ln 2 / 8))"
    using standardized_defined [OF v n s e] by (simp add: ex64_spec_mean ex64_spec_stddev)
  also have "\<dots> = (replicate 63 (Fin (- 1 / 8)) @ [Fin (63 / 8)]) ! t"
  proof (cases "t < 63")
    case True
    then show ?thesis using L by (simp add: ex64_mom_def nth_append field_simps)
  next
    case False
    with t have "t = 63" by simp
    then show ?thesis using L by (simp add: ex64_mom_def nth_append field_simps)
  qed
  finally show "rs_mom_col ex64_prices ! t = (replicate 63 (Fin (- 1 / 8)) @ [Fin (63 / 8)]) ! t" .
qed

lemma ex64_getitem_mom_raw: "getitem (mom_raw ex64_vars) ''IT'' = Inr ex64_prices"
  by (simp add: ex64_mom_raw getitem_def)

lemma row_defined_prices:
  assumes "row_defined (joined aprc0 sp500) sp500 d" and "(c, ps) \<in> set (columns aprc0)"
  shows "\<not> isnan (lookup (zip (index aprc0) ps) d)" and "\<not> isnan (lookup sp500 d)"
proof -
  from assms have "\<not> isnan (ratio_at (joined aprc0 sp500) sp500 ps d)"
    by (auto simp: row_defined_def joined_def list_all_iff)
  from ratio_at_defined [OF this]
  show "\<not> isnan (lookup (zip (index aprc0) ps) d)" and "\<not> isnan (lookup sp500 d)"
    by simp_all
qed

lemma mom_raw_index_mem:
  assumes "rrg aprc0 sp500 = Inr v" and "d \<in> set (index (mom_raw v))"
  shows "row_defined (joined aprc0 sp500) sp500 d"
proof -
  from assms(1) have "mom_raw v = dropna (mul (div_series (joined aprc0 sp500) sp500) 100)"
    by (simp add: rrg_Inr mom_raw_metrics)
  with assms(2) show ?thesis
    by (simp add: dropna_mul_div_series)
qed

lemma rs_index: "rrg aprc0 sp500 = Inr v \<Longrightarrow> index (rs v) = index aprc0"
  by (simp add: rrg_Inr rs_metrics)

lemma rs_mom_index: "rrg aprc0 sp500 = Inr v \<Longrightarrow> index (rs_mom v) = index (mom_raw v)"
  by (simp add: rrg_Inr rs_mom_metrics)

lemma rs_names: "rrg aprc0 sp500 = Inr v \<Longrightarrow> names (rs v) = names aprc0 @ [''SP500'']"
  by (simp add: rrg_Inr rs_metrics names_def joined_def case_prod_unfold)

lemma mom_raw_names: "rrg aprc0 sp500 = Inr v \<Longrightarrow> names (mom_raw v) = names aprc0 @ [''SP500'']"
  by (simp add: rrg_Inr mom_raw_metrics dropna_mul_div_series names_def joined_def case_prod_unfold)

lemma rs_rectangular:
  assumes "rrg aprc0 sp500 = Inr v" and "rectangular aprc0" and "(c, z) \<in> set (columns (rs v))"
  shows "length z = length (index aprc0)"
proof -
  from assms(1) have v: "rs v = map_columns (rs_col (benchmark aprc0 sp500)) (joined aprc0 sp500)"
    by (simp add: rrg_Inr rs_metrics)
  from assms(3) obtain ps where ps: "(c, ps) \<in> set (columns (joined aprc0 sp500))"
    and z: "z = rs_col (benchmark aprc0 sp500) ps"
    unfolding v by auto
  from ps rectangular_joined [OF assms(2), of sp500] have "length ps = length (index aprc0)"
    by (auto simp: rectangular_def list_all_iff)
  then show ?thesis
    by (simp add: z length_rs_col length_ratio_col benchmark_def)
qed

lemma lookback_defined:
  "sel \<in> set slider_options \<Longrightarrow> \<exists>k. lookback_period sel = Some k"
  unfolding slider_options_def list.set insert_iff empty_iff lookback_period_def
  by (elim disjE) simp_all

lemma iloc_tail:
  assumes "0 < n"
  shows "iloc_from (- int n) xs = drop (length xs - n) xs"
proof -
  have "nat (max 0 (int (length xs) + - int n)) = length xs - n"
    by (cases "n \<le> length xs") simp_all
  with assms show ?thesis
    by (simp add: iloc_from_def Let_def)
qed

lemma iloc_all: "iloc_from 0 xs = xs"
  by (simp add: iloc_from_def)

lemma iloc_window:
  assumes "sel \<in> set slider_options" and "lookback_period sel = Some k"
  shows "iloc_from k xs = window sel xs"
  using assms unfolding slider_options_def list.set insert_iff empty_iff
proof (elim disjE)
  assume "sel = ''LTD*''" and "lookback_period sel = Some k"
  then have "k = - int 1" "window sel xs = drop (length xs - 1) xs"
    by (simp_all add: lookback_period_def window_def tail_points_def)
  then show ?thesis by (simp only: iloc_tail)
next
  assume "sel = ''3D''" and "lookback_period sel = Some k"
  then have "k = - int 3" "window sel xs = drop (length xs - 3) xs"
    by (simp_all add: lookback_period_def window_def tail_points_def)
  then show ?thesis by (simp only: iloc_tail)
next
  assume "sel = ''7D''" and "lookback_period sel = Some k"
  then have "k = - int 7" "window sel xs = drop (length xs - 7) xs"
    by (simp_all add: lookback_period_def window_def tail_points_def)
  then show ?thesis by (simp only: iloc_tail)
next
  assume "sel = ''14D''" and "lookback_period sel = Some k"
  then have "k = - int 14" "window sel xs = drop (length xs - 14) xs"
    by (simp_all add: lookback_period_def window_def tail_points_def)
  then show ?thesis by (simp only: iloc_tail)
next
  assume "sel = ''21D''" and "lookback_period sel = Some k"
  then have "k = - int 21" "window sel xs = drop (length xs - 21) xs"
    by (simp_all add: lookback_period_def window_def tail_points_def)
  then show ?thesis by (simp only: iloc_tail)
next
  assume "sel = ''50D''" and "lookback_period sel = Some k"
  then have "k = - int 50" "window sel xs = drop (length xs - 50) xs"
    by (simp_all add: lookback_period_def window_def tail_points_def)
  then show ?thesis by (simp only: iloc_tail)
next
  assume "sel = ''MAX**''" and "lookback_period sel = Some k"
  then have "k = 0" "window sel xs = xs"
    by (simp_all add: lookback_period_def window_def tail_points_def)
  then show ?thesis by (simp only: iloc_all)
next
  assume False
  then show ?thesis ..
qed

lemma values_iloc_zip:
  assumes "length ix = length xs"
  shows "values_of (iloc_from k (zip ix xs)) = iloc_from k xs"
  using assms by (simp add: values_of_def iloc_from_def Let_def drop_map [symmetric])

lemma length_window:
  "length (window sel xs) = (case tail_points sel of None \<Rightarrow> length xs | Some n \<Rightarrow> min n (length xs))"
  by (auto simp: window_def split: option.splits)

lemma window_zip:
  assumes "length xs = length ys"
  shows "zip (window sel xs) (window sel ys) = window sel (zip xs ys)"
  using assms by (simp add: window_def drop_zip split: option.splits)

lemma rs_mom_rectangular:
  assumes "rrg aprc0 sp500 = Inr v" and "getitem (rs_mom v) c = Inr y"
  shows "length y = length (index (rs_mom v))"
proof -
  from assms obtain r where r: "getitem (mom_raw v) c = Inr r" and y: "y = rs_mom_col r"
    by (auto simp: rrg_Inr rs_mom_metrics getitem_map_columns split: sum.splits)
  from mom_raw_columns(1) [OF assms(1) getitem_mem [OF r]] show ?thesis
    by (simp add: y rs_mom_col_def standardize_col_def rs_mom_index [OF assms(1)])
qed

lemma standardized_zero:
  assumes "t < length r"
    and "isnan (r ! t) \<or> r ! t = PInf \<or> r ! t = NInf \<or> isnan (std r) \<or> std r = Fin 0"
  shows "standardized r t = Fin 0"
proof (rule standardized_undefined [OF assms(1)], rule notI)
  assume "\<exists>xs x. valid r = map Fin xs \<and> 2 \<le> length xs \<and> spec_stddev xs \<noteq> 0 \<and> r ! t = Fin x"
  then obtain xs x where xs: "valid r = map Fin xs" "2 \<le> length xs" "spec_stddev xs \<noteq> 0"
    and x: "r ! t = Fin x" by blast
  from std_finite [OF xs(1,2)] xs(3) have "std r \<noteq> Fin 0" "\<not> isnan (std r)" by simp_all
  with assms(2) x show False by simp
qed

lemma ex_joined:
  "joined ex_aprc ex_sp500 =
     \<lparr>index = [0, 1, 2],
      columns = [(''CD'', [Fin 10, Fin 20, NaN]), (''CS'', [Fin 5, Fin 5, Fin 5]),
                 (''SP500'', [Fin 100, Fin 100, Fin 100])]\<rparr>"
  by (simp add: joined_def ex_aprc_def ex_sp500_def lookup_def)

lemma ex_benchmark: "benchmark ex_aprc ex_sp500 = [Fin 100, Fin 100, Fin 100]"
  by (simp add: benchmark_def ex_aprc_def ex_sp500_def lookup_def)

lemma ex_rs_ratio:
  "rs_ratio ex_vars =
     \<lparr>index = [0, 1, 2],
      columns = [(''CD'', [Fin 10, Fin 20, NaN]), (''CS'', [Fin 5, Fin 5, Fin 5]),
                 (''SP500'', [Fin 100, Fin 100, Fin 100])]\<rparr>"
  unfolding ex_vars_def rs_ratio_metrics ex_joined ex_benchmark
  by (simp add: map_columns_def ratio_col_def)

lemma ex_ascending: "ascending (index ex_aprc)"
  by (simp add: ascending_def ex_aprc_def)

lemma ex_rectangular: "rectangular ex_aprc"
  by (simp add: rectangular_def ex_aprc_def)

lemma ex_mom_raw:
  "mom_raw ex_vars =
     \<lparr>index = [0, 1],
      columns = [(''CD'', [Fin 10, Fin 20]), (''CS'', [Fin 5, Fin 5]), (''SP500'', [Fin 100, Fin 100])]\<rparr>"
  unfolding mom_raw_aligned(1) [OF rrg_ex ex_ascending ex_rectangular] ex_rs_ratio
  by (simp add: dropna_def row_complete_def upt_rec)

lemma ex_mom_cd: "mom_col [Fin 10, Fin 20] = [Fin 0, Fin 0]"
  by (rule nth_equalityI) (auto simp: mom_col_early less_Suc_eq)

lemma ex_rs_mom_cd: "rs_mom_col [Fin 10, Fin 20] = [Fin 0, Fin 0]"
  unfolding rs_mom_col_def ex_mom_cd
  by (simp add: standardize_col_def mean_def std_def var_def valid_def fsub_def)

lemma ex_rs_cd:
  "rs_col [Fin 100, Fin 100, Fin 100] [Fin 10, Fin 20, NaN] = [Fin (- 5 / sqrt 50), Fin (5 / sqrt 50), Fin 0]"
  by (simp add: rs_col_def ratio_col_def standardize_col_def mean_def std_def var_def valid_def fsub_def)

lemma ex_getitem_rs_cd:
  "getitem (rs ex_vars) ''CD'' = Inr [Fin (- 5 / sqrt 50), Fin (5 / sqrt 50), Fin 0]"
  unfolding ex_vars_def rs_metrics ex_joined ex_benchmark
  by (simp add: getitem_def ex_rs_cd)

lemma ex_getitem_rs_mom_cd: "getitem (rs_mom ex_vars) ''CD'' = Inr [Fin 0, Fin 0]"
  using mom_column(4) [OF rrg_ex, of "''CD''" "[Fin 10, Fin 20]"]
  by (simp add: ex_mom_raw getitem_def ex_rs_mom_cd)

section \<open>Rounding to binary64\<close>

text \<open>
  Rounding to the nearest integer, the exponent found by the search, and the value of
  \<open>round_double\<close> on a number of the normal range: it is enough to know the binade of the
  number and the rounded mantissa.
\<close>

lemma round_half_even_near:
  assumes "\<bar>y - of_int n\<bar> < 1 / 2"
  shows "round_half_even y = n"
proof (cases "of_int n \<le> y")
  case True
  with assms have "\<lfloor>y\<rfloor> = n" by (intro floor_unique) auto
  with assms True show ?thesis by (simp add: round_half_even_def)
next
  case False
  with assms have f: "\<lfloor>y\<rfloor> = n - 1" by (intro floor_unique) auto
  from assms False have "1 / 2 < y - of_int (n - 1)" by auto
  with f show ?thesis by (simp add: round_half_even_def)
qed

lemma round_half_even_tie_even:
  assumes "y = of_int n + 1 / 2" and "even n"
  shows "round_half_even y = n"
proof -
  from assms(1) have "\<lfloor>y\<rfloor> = n" by (intro floor_unique) auto
  with assms show ?thesis by (simp add: round_half_even_def)
qed

lemma round_half_even_tie_odd:
  assumes "y = of_int n + 1 / 2" and "odd n"
  shows "round_half_even y = n + 1"
proof -
  from assms(1) have "\<lfloor>y\<rfloor> = n" by (intro floor_unique) auto
  with assms show ?thesis by (simp add: round_half_even_def)
qed

lemma round_half_even_of_int [simp]: "round_half_even (of_int n) = n"
  by (rule round_half_even_near) simp

lemma power_int_two_less:
  assumes "(2 :: real) powi a < 2 powi b"
  shows "a < b"
proof (rule ccontr)
  assume "\<not> a < b"
  then have "(2 :: real) powi b \<le> 2 powi a"
    by (intro power_int_increasing) auto
  with assms show False by simp
qed

lemma exponent_search_eq:
  assumes "2 powi e \<le> \<bar>x\<bar>" and "\<bar>x\<bar> < 2 powi (e + 1)" and "- 1022 \<le> e" and "e \<le> int n - 1022"
  shows "exponent_search n x = e"
  using assms(4)
proof (induction n)
  case 0
  with assms(3) show ?case by simp
next
  case (Suc n)
  show ?case
  proof (cases "2 powi (int (Suc n) - 1022) \<le> \<bar>x\<bar>")
    case True
    with assms(2) have "(2 :: real) powi (int (Suc n) - 1022) < 2 powi (e + 1)" by simp
    then have "int (Suc n) - 1022 < e + 1" by (rule power_int_two_less)
    with Suc.prems True show ?thesis by simp
  next
    case False
    with assms(1) have "(2 :: real) powi e < 2 powi (int (Suc n) - 1022)" by simp
    then have "e < int (Suc n) - 1022" by (rule power_int_two_less)
    then have "e \<le> int n - 1022" by simp
    with Suc.IH False show ?thesis by simp
  qed
qed

lemma exponent_search_small:
  assumes "\<bar>x\<bar> < 2 powi (- 1022)"
  shows "exponent_search n x = - 1022"
proof (induction n)
  case 0
  show ?case by simp
next
  case (Suc n)
  have "(2 :: real) powi (- 1022) \<le> 2 powi (int (Suc n) - 1022)"
    by (intro power_int_increasing) auto
  with assms have "\<not> 2 powi (int (Suc n) - 1022) \<le> \<bar>x\<bar>" by simp
  with Suc.IH show ?case by simp
qed

lemma round_half_even_zero [simp]: "round_half_even 0 = 0"
  by (simp add: round_half_even_def)

lemma round_double_zero [simp]: "round_double 0 = Fin 0"
proof -
  have "exponent 0 = - 1022"
    unfolding exponent_def by (rule exponent_search_small) simp
  then show ?thesis by (simp add: round_double_def)
qed

lemma round_half_even_le:
  assumes "y \<le> of_int n"
  shows "round_half_even y \<le> n"
proof (cases "y = of_int n")
  case True
  then show ?thesis by simp
next
  case False
  with assms have "y < of_int n" by simp
  then have "\<lfloor>y\<rfloor> < n" by (simp add: floor_less_iff)
  then show ?thesis by (simp add: round_half_even_def Let_def)
qed

lemma round_half_even_ge:
  assumes "of_int n \<le> y"
  shows "n \<le> round_half_even y"
proof -
  from assms have "n \<le> \<lfloor>y\<rfloor>" by (simp add: le_floor_iff)
  then show ?thesis by (simp add: round_half_even_def Let_def)
qed

lemma round_double_normal:
  assumes "- 1022 \<le> e" and "e < 1023" and "2 powi e \<le> \<bar>x\<bar>" and "\<bar>x\<bar> < 2 powi (e + 1)"
    and "round_half_even (x / 2 powi (e - 52)) = m"
  shows "round_double x = Fin (of_int m * 2 powi (e - 52))"
proof -
  define u :: real where "u = 2 powi (e - 52)"
  have u: "0 < u" by (simp add: u_def)
  have e: "exponent x = e"
    unfolding exponent_def using assms(3,4,1) by (rule exponent_search_eq) (use assms(2) in simp)
  have p: "(2 :: real) powi (e + 1) = 2 ^ 53 * u"
  proof -
    have "e + 1 = 53 + (e - 52)" by simp
    then have "(2 :: real) powi (e + 1) = 2 powi (53 + (e - 52))" by (rule arg_cong)
    also have "\<dots> = 2 powi 53 * 2 powi (e - 52)" by (rule power_int_add) simp
    finally show ?thesis by (simp add: u_def)
  qed
  from assms(4) have "x < 2 ^ 53 * u" "- (2 ^ 53 * u) < x" unfolding p by auto
  with u have "x / u \<le> of_int (2 ^ 53)" "of_int (- (2 ^ 53)) \<le> x / u"
    by (simp_all add: field_simps)
  then have "round_half_even (x / u) \<le> 2 ^ 53" "- (2 ^ 53) \<le> round_half_even (x / u)"
    by (simp_all only: round_half_even_le round_half_even_ge)
  with assms(5) have "\<bar>m\<bar> \<le> 2 ^ 53" by (simp add: u_def)
  then have "real_of_int \<bar>m\<bar> \<le> real_of_int (2 ^ 53)" by (simp only: of_int_le_iff)
  then have "\<bar>real_of_int m\<bar> \<le> 2 ^ 53" by simp
  with u have "\<bar>of_int m * u\<bar> \<le> 2 ^ 53 * u" by (simp add: abs_mult)
  also have "\<dots> = 2 powi (e + 1)" by (simp add: p)
  also have "\<dots> < 2 powi 1024" using assms(2) by (intro power_int_strict_increasing) auto
  finally have "\<not> 2 powi 1024 \<le> \<bar>of_int m * u\<bar>" by simp
  with e assms(5) show ?thesis
    unfolding round_double_def Let_def u_def by simp
qed

text \<open>
  The roundings met on the three-day table, each one an instance of the rule above. The
  sum of the three ratios is a tie and goes to the even mantissa.
\<close>

lemma round_double_q: "round_double (1 / 1000) = Fin (1152921504606847 / 1152921504606846976)"
proof -
  have r: "round_half_even ((1 / 1000) / 2 powi ((- 10) - 52)) = 4611686018427388"
    by (rule round_half_even_near) simp
  have a: "(2 :: real) powi (- 10) \<le> \<bar>1 / 1000\<bar>" by simp
  have b: "\<bar>1 / 1000 :: real\<bar> < 2 powi ((- 10) + 1)" by simp
  have "round_double (1 / 1000) = Fin (of_int 4611686018427388 * 2 powi ((- 10) - 52))"
    by (rule round_double_normal [OF _ _ a b r]) simp_all
  then show ?thesis by simp
qed

lemma round_double_c: "round_double (28823037615171175 / 288230376151711744) = Fin (3602879701896397 / 36028797018963968)"
proof -
  have r: "round_half_even ((28823037615171175 / 288230376151711744) / 2 powi ((- 4) - 52)) = 7205759403792794"
    by (rule round_half_even_near) simp
  have a: "(2 :: real) powi (- 4) \<le> \<bar>28823037615171175 / 288230376151711744\<bar>" by simp
  have b: "\<bar>28823037615171175 / 288230376151711744 :: real\<bar> < 2 powi ((- 4) + 1)" by simp
  have "round_double (28823037615171175 / 288230376151711744) = Fin (of_int 7205759403792794 * 2 powi ((- 4) - 52))"
    by (rule round_double_normal [OF _ _ a b r]) simp_all
  then show ?thesis by simp
qed

lemma round_double_c_exact: "round_double (3602879701896397 / 36028797018963968) = Fin (3602879701896397 / 36028797018963968)"
proof -
  have r: "round_half_even ((3602879701896397 / 36028797018963968) / 2 powi ((- 4) - 52)) = 7205759403792794"
    by (rule round_half_even_near) simp
  have a: "(2 :: real) powi (- 4) \<le> \<bar>3602879701896397 / 36028797018963968\<bar>" by simp
  have b: "\<bar>3602879701896397 / 36028797018963968 :: real\<bar> < 2 powi ((- 4) + 1)" by simp
  have "round_double (3602879701896397 / 36028797018963968) = Fin (of_int 7205759403792794 * 2 powi ((- 4) - 52))"
    by (rule round_double_normal [OF _ _ a b r]) simp_all
  then show ?thesis by simp
qed

lemma round_double_s1: "round_double (3602879701896397 / 18014398509481984) = Fin (3602879701896397 / 18014398509481984)"
proof -
  have r: "round_half_even ((3602879701896397 / 18014398509481984) / 2 powi ((- 3) - 52)) = 7205759403792794"
    by (rule round_half_even_near) simp
  have a: "(2 :: real) powi (- 3) \<le> \<bar>3602879701896397 / 18014398509481984\<bar>" by simp
  have b: "\<bar>3602879701896397 / 18014398509481984 :: real\<bar> < 2 powi ((- 3) + 1)" by simp
  have "round_double (3602879701896397 / 18014398509481984) = Fin (of_int 7205759403792794 * 2 powi ((- 3) - 52))"
    by (rule round_double_normal [OF _ _ a b r]) simp_all
  then show ?thesis by simp
qed

lemma round_double_s2: "round_double (10808639105689191 / 36028797018963968) = Fin (1351079888211149 / 4503599627370496)"
proof -
  have r: "round_half_even ((10808639105689191 / 36028797018963968) / 2 powi ((- 2) - 52)) = 5404319552844595 + 1"
    by (rule round_half_even_tie_odd) simp_all
  have a: "(2 :: real) powi (- 2) \<le> \<bar>10808639105689191 / 36028797018963968\<bar>" by simp
  have b: "\<bar>10808639105689191 / 36028797018963968 :: real\<bar> < 2 powi ((- 2) + 1)" by simp
  have "round_double (10808639105689191 / 36028797018963968) = Fin (of_int (5404319552844595 + 1) * 2 powi ((- 2) - 52))"
    by (rule round_double_normal [OF _ _ a b r]) simp_all
  then show ?thesis by simp
qed

lemma round_double_avg: "round_double (1351079888211149 / 13510798882111488) = Fin (7205759403792795 / 72057594037927936)"
proof -
  have r: "round_half_even ((1351079888211149 / 13510798882111488) / 2 powi ((- 4) - 52)) = 7205759403792795"
    by (rule round_half_even_near) simp
  have a: "(2 :: real) powi (- 4) \<le> \<bar>1351079888211149 / 13510798882111488\<bar>" by simp
  have b: "\<bar>1351079888211149 / 13510798882111488 :: real\<bar> < 2 powi ((- 4) + 1)" by simp
  have "round_double (1351079888211149 / 13510798882111488) = Fin (of_int 7205759403792795 * 2 powi ((- 4) - 52))"
    by (rule round_double_normal [OF _ _ a b r]) simp_all
  then show ?thesis by simp
qed

lemma round_double_d: "round_double (1 / 72057594037927936) = Fin (1 / 72057594037927936)"
proof -
  have r: "round_half_even ((1 / 72057594037927936) / 2 powi ((- 56) - 52)) = 4503599627370496"
    by (rule round_half_even_near) simp
  have a: "(2 :: real) powi (- 56) \<le> \<bar>1 / 72057594037927936\<bar>" by simp
  have b: "\<bar>1 / 72057594037927936 :: real\<bar> < 2 powi ((- 56) + 1)" by simp
  have "round_double (1 / 72057594037927936) = Fin (of_int 4503599627370496 * 2 powi ((- 56) - 52))"
    by (rule round_double_normal [OF _ _ a b r]) simp_all
  then show ?thesis by simp
qed

lemma round_double_sq: "round_double (1 / 5192296858534827628530496329220096) = Fin (1 / 5192296858534827628530496329220096)"
proof -
  have r: "round_half_even ((1 / 5192296858534827628530496329220096) / 2 powi ((- 112) - 52)) = 4503599627370496"
    by (rule round_half_even_near) simp
  have a: "(2 :: real) powi (- 112) \<le> \<bar>1 / 5192296858534827628530496329220096\<bar>" by simp
  have b: "\<bar>1 / 5192296858534827628530496329220096 :: real\<bar> < 2 powi ((- 112) + 1)" by simp
  have "round_double (1 / 5192296858534827628530496329220096) = Fin (of_int 4503599627370496 * 2 powi ((- 112) - 52))"
    by (rule round_double_normal [OF _ _ a b r]) simp_all
  then show ?thesis by simp
qed

lemma round_double_t1: "round_double (1 / 2596148429267413814265248164610048) = Fin (1 / 2596148429267413814265248164610048)"
proof -
  have r: "round_half_even ((1 / 2596148429267413814265248164610048) / 2 powi ((- 111) - 52)) = 4503599627370496"
    by (rule round_half_even_near) simp
  have a: "(2 :: real) powi (- 111) \<le> \<bar>1 / 2596148429267413814265248164610048\<bar>" by simp
  have b: "\<bar>1 / 2596148429267413814265248164610048 :: real\<bar> < 2 powi ((- 111) + 1)" by simp
  have "round_double (1 / 2596148429267413814265248164610048) = Fin (of_int 4503599627370496 * 2 powi ((- 111) - 52))"
    by (rule round_double_normal [OF _ _ a b r]) simp_all
  then show ?thesis by simp
qed

lemma round_double_t2: "round_double (3 / 5192296858534827628530496329220096) = Fin (3 / 5192296858534827628530496329220096)"
proof -
  have r: "round_half_even ((3 / 5192296858534827628530496329220096) / 2 powi ((- 111) - 52)) = 6755399441055744"
    by (rule round_half_even_near) simp
  have a: "(2 :: real) powi (- 111) \<le> \<bar>3 / 5192296858534827628530496329220096\<bar>" by simp
  have b: "\<bar>3 / 5192296858534827628530496329220096 :: real\<bar> < 2 powi ((- 111) + 1)" by simp
  have "round_double (3 / 5192296858534827628530496329220096) = Fin (of_int 6755399441055744 * 2 powi ((- 111) - 52))"
    by (rule round_double_normal [OF _ _ a b r]) simp_all
  then show ?thesis by simp
qed

lemma round_double_var: "round_double (3 / 10384593717069655257060992658440192) = Fin (3 / 10384593717069655257060992658440192)"
proof -
  have r: "round_half_even ((3 / 10384593717069655257060992658440192) / 2 powi ((- 112) - 52)) = 6755399441055744"
    by (rule round_half_even_near) simp
  have a: "(2 :: real) powi (- 112) \<le> \<bar>3 / 10384593717069655257060992658440192\<bar>" by simp
  have b: "\<bar>3 / 10384593717069655257060992658440192 :: real\<bar> < 2 powi ((- 112) + 1)" by simp
  have "round_double (3 / 10384593717069655257060992658440192) = Fin (of_int 6755399441055744 * 2 powi ((- 112) - 52))"
    by (rule round_double_normal [OF _ _ a b r]) simp_all
  then show ?thesis by simp
qed

lemma round_double_e: "round_double (- (1 / 72057594037927936)) = Fin (- (1 / 72057594037927936))"
proof -
  have r: "round_half_even ((- (1 / 72057594037927936)) / 2 powi ((- 56) - 52)) = (- 4503599627370496)"
    by (rule round_half_even_near) simp
  have a: "(2 :: real) powi (- 56) \<le> \<bar>- (1 / 72057594037927936)\<bar>" by simp
  have b: "\<bar>- (1 / 72057594037927936) :: real\<bar> < 2 powi ((- 56) + 1)" by simp
  have "round_double (- (1 / 72057594037927936)) = Fin (of_int (- 4503599627370496) * 2 powi ((- 56) - 52))"
    by (rule round_double_normal [OF _ _ a b r]) simp_all
  then show ?thesis by simp
qed

lemma round_double_z: "round_double (- (2251799813685248 / 2757880273211543)) = Fin (- (7354347395230783 / 9007199254740992))"
proof -
  have r: "round_half_even ((- (2251799813685248 / 2757880273211543)) / 2 powi ((- 1) - 52)) = (- 7354347395230783)"
    by (rule round_half_even_near) simp
  have a: "(2 :: real) powi (- 1) \<le> \<bar>- (2251799813685248 / 2757880273211543)\<bar>" by simp
  have b: "\<bar>- (2251799813685248 / 2757880273211543) :: real\<bar> < 2 powi ((- 1) + 1)" by simp
  have "round_double (- (2251799813685248 / 2757880273211543)) = Fin (of_int (- 7354347395230783) * 2 powi ((- 1) - 52))"
    by (rule round_double_normal [OF _ _ a b r]) simp_all
  then show ?thesis by simp
qed

lemma round_double_quarter: "round_double (1 / 4) = Fin (1 / 4)"
proof -
  have r: "round_half_even ((1 / 4) / 2 powi ((- 2) - 52)) = 4503599627370496"
    by (rule round_half_even_near) simp
  have a: "(2 :: real) powi (- 2) \<le> \<bar>1 / 4\<bar>" by simp
  have b: "\<bar>1 / 4 :: real\<bar> < 2 powi ((- 2) + 1)" by simp
  have "round_double (1 / 4) = Fin (of_int 4503599627370496 * 2 powi ((- 2) - 52))"
    by (rule round_double_normal [OF _ _ a b r]) simp_all
  then show ?thesis by simp
qed

lemma round_double_n25: "round_double 25 = Fin 25"
proof -
  have r: "round_half_even (25 / 2 powi (4 - 52)) = 7036874417766400"
    by (rule round_half_even_near) simp
  have a: "(2 :: real) powi 4 \<le> \<bar>25\<bar>" by simp
  have b: "\<bar>25 :: real\<bar> < 2 powi (4 + 1)" by simp
  have "round_double 25 = Fin (of_int 7036874417766400 * 2 powi (4 - 52))"
    by (rule round_double_normal [OF _ _ a b r]) simp_all
  then show ?thesis by simp
qed

lemma round_double_n50: "round_double 50 = Fin 50"
proof -
  have r: "round_half_even (50 / 2 powi (5 - 52)) = 7036874417766400"
    by (rule round_half_even_near) simp
  have a: "(2 :: real) powi 5 \<le> \<bar>50\<bar>" by simp
  have b: "\<bar>50 :: real\<bar> < 2 powi (5 + 1)" by simp
  have "round_double 50 = Fin (of_int 7036874417766400 * 2 powi (5 - 52))"
    by (rule round_double_normal [OF _ _ a b r]) simp_all
  then show ?thesis by simp
qed

lemma round_double_n75: "round_double 75 = Fin 75"
proof -
  have r: "round_half_even (75 / 2 powi (6 - 52)) = 5277655813324800"
    by (rule round_half_even_near) simp
  have a: "(2 :: real) powi 6 \<le> \<bar>75\<bar>" by simp
  have b: "\<bar>75 :: real\<bar> < 2 powi (6 + 1)" by simp
  have "round_double 75 = Fin (of_int 5277655813324800 * 2 powi (6 - 52))"
    by (rule round_double_normal [OF _ _ a b r]) simp_all
  then show ?thesis by simp
qed

lemma round_double_one: "round_double 1 = Fin 1"
proof -
  have r: "round_half_even (1 / 2 powi (0 - 52)) = 4503599627370496"
    by (rule round_half_even_near) simp
  have a: "(2 :: real) powi 0 \<le> \<bar>1\<bar>" by simp
  have b: "\<bar>1 :: real\<bar> < 2 powi (0 + 1)" by simp
  have "round_double 1 = Fin (of_int 4503599627370496 * 2 powi (0 - 52))"
    by (rule round_double_normal [OF _ _ a b r]) simp_all
  then show ?thesis by simp
qed

lemma round_double_n100: "round_double 100 = Fin 100"
proof -
  have r: "round_half_even (100 / 2 powi (6 - 52)) = 7036874417766400"
    by (rule round_half_even_near) simp
  have a: "(2 :: real) powi 6 \<le> \<bar>100\<bar>" by simp
  have b: "\<bar>100 :: real\<bar> < 2 powi (6 + 1)" by simp
  have "round_double 100 = Fin (of_int 7036874417766400 * 2 powi (6 - 52))"
    by (rule round_double_normal [OF _ _ a b r]) simp_all
  then show ?thesis by simp
qed

lemma round_double_sd:
  "round_double (sqrt (3 / 10384593717069655257060992658440192)) =
     Fin (2757880273211543 / 162259276829213363391578010288128)"
proof -
  define s :: real where "s = sqrt (3 / 10384593717069655257060992658440192)"
  have lo: "11031521092846171 / 649037107316853453566312041152512 < s"
    unfolding s_def by (rule real_less_rsqrt) (simp add: power2_eq_square)
  have hi: "s < 11031521092846173 / 649037107316853453566312041152512"
    unfolding s_def by (rule real_less_lsqrt) (simp_all add: power2_eq_square)
  have l: "11031521092846171 < s * 649037107316853453566312041152512"
    using lo by simp
  have h: "s * 649037107316853453566312041152512 < 11031521092846173"
    using hi by simp
  have n: "\<bar>s * 324518553658426726783156020576256 - 5515760546423086\<bar> < 1 / 2"
    unfolding abs_less_iff using l h by (intro conjI) linarith+
  have r: "round_half_even (s / 2 powi (- 56 - 52)) = 5515760546423086"
    by (rule round_half_even_near) (use n in simp)
  from lo have pos: "0 \<le> s" by simp
  have a: "(2 :: real) powi (- 56) \<le> \<bar>s\<bar>" using lo pos by simp
  have b: "\<bar>s\<bar> < 2 powi (- 56 + 1)" using hi pos by simp
  have "round_double s = Fin (of_int 5515760546423086 * 2 powi (- 56 - 52))"
    by (rule round_double_normal [OF _ _ a b r]) simp_all
  then show ?thesis by (simp add: s_def)
qed

section \<open>The RS path in doubles\<close>

lemma rrg_double_Inr:
  "rrg_double aprc0 sp500 = Inr v \<longleftrightarrow>
     ''SP500'' \<notin> set (names aprc0) \<and>
     v = metrics_double (joined aprc0 sp500) (benchmark aprc0 sp500)"
proof (cases "''SP500'' \<in> set (names aprc0)")
  case True
  then show ?thesis by (simp add: rrg_double_def join_def)
next
  case False
  then have "map_of (columns aprc0) ''SP500'' = None"
    by (simp add: names_def map_of_eq_None_iff)
  with False show ?thesis
    by (auto simp: rrg_double_def join_def getitem_def joined_def benchmark_def map_add_def)
qed

lemma rs64_column:
  assumes "rrg_double aprc0 sp500 = Inr v" and "getitem (ratio64 v) c = Inr r"
  shows "getitem (rs64 v) c = Inr (map nan_to_zero (standardize_col_double r))"
  using assms
  by (auto simp: rrg_double_Inr metrics_double_def Let_def standardize_double_def replace_nan_def
      getitem_map_columns split: sum.splits)

lemma rounded_NaN_iff: "rounded v = NaN \<longleftrightarrow> v = NaN"
  by (cases v) (simp_all add: round_double_def Let_def signed_inf_def)

lemma sum_double_zeros:
  assumes "\<forall>x \<in> set vs. x = Fin 0"
  shows "sum_double vs = Fin 0"
proof -
  have "foldl (\<lambda>s v. rounded (fadd s v)) (Fin 0) vs = Fin 0"
    using assms by (induction vs) simp_all
  then show ?thesis by (simp add: sum_double_def)
qed

lemma zero_over_anything:
  "nan_to_zero (rounded (fdiv (Fin 0) s)) = Fin 0"
  by (cases s) simp_all

lemma standardized_at_mean:
  assumes "mean_double r = x"
  shows "nan_to_zero (rounded (fdiv (rounded (fsub x (mean_double r))) (std_double r))) = Fin 0"
proof (cases x)
  case (Fin q)
  with assms show ?thesis by (simp add: fsub_def zero_over_anything)
qed (use assms in \<open>simp_all add: fsub_def\<close>)

lemma std_double_constant:
  assumes "\<forall>x \<in> set r. isnan x \<or> x = Fin q" and "mean_double r = Fin q"
    and "2 \<le> length (valid r)"
  shows "std_double r = Fin 0"
proof -
  let ?xs = "valid r"
  from assms(3) have ne: "?xs \<noteq> []" by auto
  with assms(2) have avg: "rounded (fdiv (sum_double ?xs) (Fin (real (length ?xs)))) = Fin q"
    by (simp add: mean_double_def Let_def)
  have "\<forall>x \<in> set ?xs. x = Fin q"
    using assms(1) by (auto simp: valid_def)
  then have "\<forall>y \<in> set (map (\<lambda>v. rounded (fsquare (rounded (fsub (Fin q) v)))) ?xs). y = Fin 0"
    by (auto simp: fsub_def)
  then have "sum_double (map (\<lambda>v. rounded (fsquare (rounded (fsub (Fin q) v)))) ?xs) = Fin 0"
    by (rule sum_double_zeros)
  moreover from assms(3) have "real (length ?xs - 1) \<noteq> 0" by auto
  ultimately have "var_double r = Fin 0"
    using assms(3) avg by (simp add: var_double_def Let_def)
  then show ?thesis by (simp add: std_double_def)
qed

lemma ex3_ratio64:
  "ratio64 ex3_vars =
     \<lparr>index = [0, 1, 2],
      columns = [(''XLK'', replicate 3 (Fin (3602879701896397 / 36028797018963968))),
                 (''XLE'', replicate 3 (Fin 25)),
                 (''SP500'', replicate 3 (Fin 100))]\<rparr>"
  by (simp add: ex3_vars_def metrics_double_def Let_def mul_double_def div_axis0_double_def map_columns_def
      joined_def benchmark_def ex3_aprc_def ex3_sp500_def lookup_def numeral_3_eq_3
      round_double_q round_double_c round_double_quarter round_double_n25 round_double_one round_double_n100)

section \<open>The claims of the specification\<close>









text \<open>
  Claim C4 as stated fails when a row of the table has a missing price: on the three-day
  table the RS series are indexed by days 0, 1, 2 and the momentum series by days 0, 1.
\<close>

theorem momentum_index_counterexample:
  "rrg ex_aprc ex_sp500 = Inr ex_vars \<and>
   index (rs ex_vars) = [0, 1, 2] \<and> index (rs_mom ex_vars) = [0, 1]"
  using rrg_ex rs_index [OF rrg_ex] rs_mom_index [OF rrg_ex]
  by (simp add: ex_mom_raw ex_aprc_def)

text \<open>
  Claim C4, amended. The dates of the momentum series are among the dates of the RS
  series. For a table with a strictly ascending index and full-length columns, they are
  exactly the dates of the RS series at which every ratio of the table (the benchmark's
  included) is defined, in the same order; the two series have the same index exactly
  when every row of the table is complete in that sense.
\<close>

theorem momentum_index_subset:
  assumes "rrg aprc0 sp500 = Inr v"
  shows "set (index (rs_mom v)) \<subseteq> set (index (rs v)) \<and>
         (ascending (index aprc0) \<and> rectangular aprc0 \<longrightarrow>
            index (rs_mom v) = filter (row_defined (joined aprc0 sp500) sp500) (index (rs v)) \<and>
            (index (rs_mom v) = index (rs v) \<longleftrightarrow>
               list_all (row_defined (joined aprc0 sp500) sp500) (index aprc0)))"
proof (intro conjI impI)
  show "set (index (rs_mom v)) \<subseteq> set (index (rs v))"
    unfolding rs_index [OF assms] rs_mom_index [OF assms]
    using row_defined_joined_mem [OF mom_raw_index_mem [OF assms]] by blast
next
  assume "ascending (index aprc0) \<and> rectangular aprc0"
  then have a: "ascending (index aprc0)" and r: "rectangular aprc0" by simp_all
  note ix = mom_raw_aligned(2) [OF assms a r]
  show "index (rs_mom v) = filter (row_defined (joined aprc0 sp500) sp500) (index (rs v))"
    by (simp add: rs_index [OF assms] rs_mom_index [OF assms] ix)
  show "index (rs_mom v) = index (rs v) \<longleftrightarrow>
          list_all (row_defined (joined aprc0 sp500) sp500) (index aprc0)"
    by (simp add: rs_index [OF assms] rs_mom_index [OF assms] ix filter_id_conv list_all_iff)
qed

text \<open>
  The three-day table: its index is ascending, its columns are full, and day 2 is not
  a complete row.
\<close>

theorem momentum_index_subset_witness:
  "rrg ex_aprc ex_sp500 = Inr ex_vars \<and> ascending (index ex_aprc) \<and> rectangular ex_aprc \<and>
   set (index (rs_mom ex_vars)) \<subseteq> set (index (rs ex_vars)) \<and>
   index (rs_mom ex_vars) = filter (row_defined (joined ex_aprc ex_sp500) ex_sp500) (index (rs ex_vars)) \<and>
   index (rs_mom ex_vars) \<noteq> index (rs ex_vars) \<and>
   \<not> list_all (row_defined (joined ex_aprc ex_sp500) ex_sp500) (index ex_aprc)"
proof -
  have ne: "index (rs_mom ex_vars) \<noteq> index (rs ex_vars)"
    using rs_index [OF rrg_ex] rs_mom_index [OF rrg_ex] by (simp add: ex_mom_raw ex_aprc_def)
  from momentum_index_subset [OF rrg_ex] ex_ascending ex_rectangular
  have "set (index (rs_mom ex_vars)) \<subseteq> set (index (rs ex_vars))"
    "index (rs_mom ex_vars) = filter (row_defined (joined ex_aprc ex_sp500) ex_sp500) (index (rs ex_vars))"
    "index (rs_mom ex_vars) = index (rs ex_vars) \<longleftrightarrow>
       list_all (row_defined (joined ex_aprc ex_sp500) ex_sp500) (index ex_aprc)"
    by blast+
  with rrg_ex ex_ascending ex_rectangular ne show ?thesis by simp
qed

text \<open>
  Claim C5. The RS table keeps the index of the price table, with a value for every
  instrument at every date. A date of the momentum ratio is a date of the price table at
  which the benchmark and every instrument have a price, and the momentum ratio has no
  NaN cell. For a table with a strictly ascending index and full-length columns the
  momentum ratio is the RS ratio with its incomplete rows dropped.
\<close>

theorem momentum_on_complete_rows:
  assumes "rrg aprc0 sp500 = Inr v"
  shows "index (rs v) = index aprc0 \<and>
         names (rs v) = names aprc0 @ [''SP500''] \<and> names (mom_raw v) = names (rs v) \<and>
         (rectangular aprc0 \<longrightarrow> (\<forall>(c, z) \<in> set (columns (rs v)). length z = length (index aprc0))) \<and>
         (\<forall>d \<in> set (index (mom_raw v)).
            d \<in> set (index aprc0) \<and> \<not> isnan (lookup sp500 d) \<and>
            (\<forall>(c, ps) \<in> set (columns aprc0). \<not> isnan (lookup (zip (index aprc0) ps) d))) \<and>
         (\<forall>(c, r) \<in> set (columns (mom_raw v)).
            length r = length (index (mom_raw v)) \<and> (\<forall>x \<in> set r. \<not> isnan x)) \<and>
         (ascending (index aprc0) \<and> rectangular aprc0 \<longrightarrow>
            mom_raw v = dropna (rs_ratio v) \<and>
            index (mom_raw v) = filter (row_defined (joined aprc0 sp500) sp500) (index aprc0))"
proof (intro conjI impI ballI)
  show "index (rs v) = index aprc0" by (rule rs_index [OF assms])
  show "names (rs v) = names aprc0 @ [''SP500'']" by (rule rs_names [OF assms])
  show "names (mom_raw v) = names (rs v)"
    by (simp add: rs_names [OF assms] mom_raw_names [OF assms])
next
  fix cz
  assume "rectangular aprc0" and "cz \<in> set (columns (rs v))"
  then show "case cz of (c, z) \<Rightarrow> length z = length (index aprc0)"
    using rs_rectangular [OF assms] by auto
next
  fix d
  assume d: "d \<in> set (index (mom_raw v))"
  note rd = mom_raw_index_mem [OF assms d]
  from row_defined_joined_mem [OF rd] show "d \<in> set (index aprc0)" .
  from rd have "\<not> isnan (ratio_at (joined aprc0 sp500) sp500 (benchmark aprc0 sp500) d)"
    by (simp add: row_defined_def joined_def benchmark_def)
  from ratio_at_defined [OF this] show "\<not> isnan (lookup sp500 d)" by simp
  fix cp
  assume "cp \<in> set (columns aprc0)"
  then show "case cp of (c, ps) \<Rightarrow> \<not> isnan (lookup (zip (index aprc0) ps) d)"
    using row_defined_prices(1) [OF rd] by auto
next
  fix cr
  assume "cr \<in> set (columns (mom_raw v))"
  then show "case cr of (c, r) \<Rightarrow> length r = length (index (mom_raw v)) \<and> (\<forall>x \<in> set r. \<not> isnan x)"
    using mom_raw_columns [OF assms] by auto
next
  assume "ascending (index aprc0) \<and> rectangular aprc0"
  then have a: "ascending (index aprc0)" and r: "rectangular aprc0" by simp_all
  from mom_raw_aligned [OF assms a r]
  show "mom_raw v = dropna (rs_ratio v)"
    and "index (mom_raw v) = filter (row_defined (joined aprc0 sp500) sp500) (index aprc0)" .
qed

text \<open>
  On the three-day table the price of \<^verbatim>\<open>CD\<close> is missing on day 2: RS keeps the
  three days, the momentum ratio keeps days 0 and 1.
\<close>

theorem momentum_on_complete_rows_witness:
  "rrg ex_aprc ex_sp500 = Inr ex_vars \<and> ascending (index ex_aprc) \<and> rectangular ex_aprc \<and>
   index ex_aprc = [0, 1, 2] \<and> isnan (lookup (zip (index ex_aprc) [Fin 10, Fin 20, NaN]) 2) \<and>
   index (rs ex_vars) = [0, 1, 2] \<and>
   mom_raw ex_vars = dropna (rs_ratio ex_vars) \<and>
   index (mom_raw ex_vars) = filter (row_defined (joined ex_aprc ex_sp500) ex_sp500) (index ex_aprc) \<and>
   index (mom_raw ex_vars) = [0, 1]"
proof -
  have i: "index ex_aprc = [0, 1, 2]" by (simp add: ex_aprc_def)
  have n: "isnan (lookup (zip (index ex_aprc) [Fin 10, Fin 20, NaN]) 2)"
    by (simp add: i lookup_def)
  from momentum_on_complete_rows [OF rrg_ex] ex_ascending ex_rectangular
  have "index (rs ex_vars) = index ex_aprc" "mom_raw ex_vars = dropna (rs_ratio ex_vars)"
    "index (mom_raw ex_vars) = filter (row_defined (joined ex_aprc ex_sp500) ex_sp500) (index ex_aprc)"
    by blast+
  then have c: "index (rs ex_vars) = [0, 1, 2]" "mom_raw ex_vars = dropna (rs_ratio ex_vars)"
    "index (mom_raw ex_vars) = filter (row_defined (joined ex_aprc ex_sp500) ex_sp500) (index ex_aprc)"
    by (simp_all only: i)
  have m: "index (mom_raw ex_vars) = [0, 1]"
    by (simp add: ex_mom_raw)
  show ?thesis
    by (intro conjI) (rule rrg_ex ex_ascending ex_rectangular i n c m)+
qed




text \<open>
  Claim C7. A raw momentum column has one value per row-complete date; it is 0 on each
  of the first 63 of them, so it is 0 everywhere when there are fewer than 63.
\<close>

theorem raw_momentum_zero_first_63:
  assumes "rrg aprc0 sp500 = Inr v" and "getitem (mom v) c = Inr m"
  shows "length m = length (index (mom_raw v)) \<and>
         (\<forall>t < length m. t < 63 \<longrightarrow> m ! t = Fin 0) \<and>
         (length (index (mom_raw v)) < 63 \<longrightarrow> (\<forall>x \<in> set m. x = Fin 0))"
proof -
  from assms obtain r where r: "getitem (mom_raw v) c = Inr r" and m: "m = mom_col r"
    by (auto simp: rrg_Inr mom_metrics getitem_map_columns split: sum.splits)
  from mom_raw_columns(1) [OF assms(1) getitem_mem [OF r]]
  have len: "length m = length (index (mom_raw v))"
    by (simp add: m)
  have early: "\<forall>t < length m. t < 63 \<longrightarrow> m ! t = Fin 0"
    by (simp add: m mom_col_early)
  have short: "\<forall>x \<in> set m. x = Fin 0" if "length (index (mom_raw v)) < 63"
  proof
    fix x
    assume "x \<in> set m"
    then obtain t where "t < length m" "x = m ! t"
      by (auto simp: in_set_conv_nth)
    with early len that show "x = Fin 0" by simp
  qed
  show ?thesis
  proof (intro conjI impI)
    show "length m = length (index (mom_raw v))" by (rule len)
    show "\<forall>t < length m. t < 63 \<longrightarrow> m ! t = Fin 0" by (rule early)
    show "\<forall>x \<in> set m. x = Fin 0" if "length (index (mom_raw v)) < 63"
      using that by (rule short)
  qed
qed

text \<open>
  On the 64-day table the raw momentum of row 62 is 0 and that of row 63 is \<open>ln 2\<close>.
\<close>

theorem raw_momentum_zero_first_63_witness:
  "rrg ex64_aprc ex64_sp500 = Inr ex64_vars \<and>
   getitem (mom ex64_vars) ''IT'' = Inr (map Fin ex64_mom) \<and>
   length (map Fin ex64_mom) = 64 \<and> length (index (mom_raw ex64_vars)) = 64 \<and>
   map Fin ex64_mom ! 62 = Fin 0 \<and> map Fin ex64_mom ! 63 = Fin (ln 2)"
proof -
  have g: "getitem (mom ex64_vars) ''IT'' = Inr (map Fin ex64_mom)"
    using mom_column(3) [OF rrg_ex64 ex64_getitem_mom_raw] by (simp add: ex64_mom_col)
  from raw_momentum_zero_first_63 [OF rrg_ex64 g]
  have "length (map Fin ex64_mom) = length (index (mom_raw ex64_vars))"
    and e: "\<forall>t < length (map Fin ex64_mom). t < 63 \<longrightarrow> map Fin ex64_mom ! t = Fin 0"
    by blast+
  moreover have l: "length (map Fin ex64_mom) = 64" by (simp add: ex64_mom_def)
  moreover from e l have "map Fin ex64_mom ! 62 = Fin 0" by simp
  moreover have "map Fin ex64_mom ! 63 = Fin (ln 2)" by (simp add: ex64_mom_def nth_append)
  ultimately show ?thesis using rrg_ex64 g by simp
qed

text \<open>
  Claim C8 as stated fails on a short or incomplete table: on the three-day table the
  selection \<^verbatim>\<open>7D\<close> yields three RS values and two momentum values, not seven triples.
\<close>

theorem trail_window_counterexample:
  "rrg ex_aprc ex_sp500 = Inr ex_vars \<and> lookback_period ''7D'' = Some (- 7) \<and>
   trail ex_vars (- 7) ''CD'' = Inr ([Fin (- 5 / sqrt 50), Fin (5 / sqrt 50), Fin 0], [Fin 0, Fin 0])"
proof -
  have k: "lookback_period ''7D'' = Some (- 7)" by (simp add: lookback_period_def)
  have ix: "index (rs ex_vars) = [0, 1, 2]" "index (rs_mom ex_vars) = [0, 1]"
    using rs_index [OF rrg_ex] rs_mom_index [OF rrg_ex] by (simp_all add: ex_mom_raw ex_aprc_def)
  have "trail ex_vars (- 7) ''CD'' = Inr ([Fin (- 5 / sqrt 50), Fin (5 / sqrt 50), Fin 0], [Fin 0, Fin 0])"
    unfolding trail_def column_def ex_getitem_rs_cd ex_getitem_rs_mom_cd ix
    by (simp add: iloc_from_def values_of_def)
  with rrg_ex k show ?thesis by simp
qed

text \<open>
  Claim C8, amended. For a table with full-length columns, each of the seven selections
  sets the slice start, and the trail of an instrument is the window of its RS values and
  the window of its momentum values: the last 1, 3, 7, 14, 21 or 50 values in index
  order, all of them when there are fewer, and the whole series for \<^verbatim>\<open>MAX**\<close>. When
  the two tables have the same index, the two windows pair up date by date.
\<close>

theorem trail_window:
  assumes "rrg aprc0 sp500 = Inr v" and "rectangular aprc0"
    and "getitem (rs v) etf = Inr x" and "getitem (rs_mom v) etf = Inr y"
    and "sel \<in> set slider_options"
  shows "\<exists>k. lookback_period sel = Some k \<and>
           trail v k etf = Inr (window sel x, window sel y) \<and>
           length (window sel x) = (case tail_points sel of None \<Rightarrow> length x | Some n \<Rightarrow> min n (length x)) \<and>
           length (window sel y) = (case tail_points sel of None \<Rightarrow> length y | Some n \<Rightarrow> min n (length y)) \<and>
           (index (rs_mom v) = index (rs v) \<longrightarrow>
              zip (window sel (index (rs v))) (zip (window sel x) (window sel y)) =
              window sel (zip (index (rs v)) (zip x y)))"
proof -
  from lookback_defined [OF assms(5)] obtain k where k: "lookback_period sel = Some k" ..
  have lx: "length (index (rs v)) = length x"
    using rs_rectangular [OF assms(1,2) getitem_mem [OF assms(3)]] rs_index [OF assms(1)] by simp
  have ly: "length (index (rs_mom v)) = length y"
    using rs_mom_rectangular [OF assms(1,4)] by simp
  have wx: "values_of (iloc_from k (zip (index (rs v)) x)) = window sel x"
    unfolding values_iloc_zip [OF lx] by (rule iloc_window [OF assms(5) k])
  have wy: "values_of (iloc_from k (zip (index (rs_mom v)) y)) = window sel y"
    unfolding values_iloc_zip [OF ly] by (rule iloc_window [OF assms(5) k])
  have t: "trail v k etf = Inr (window sel x, window sel y)"
    unfolding trail_def column_def assms(3,4) by (simp only: sum.case wx wy)
  have z: "zip (window sel (index (rs v))) (zip (window sel x) (window sel y)) =
             window sel (zip (index (rs v)) (zip x y))"
    if "index (rs_mom v) = index (rs v)"
  proof -
    from that lx ly have xy: "length x = length y" by simp
    with lx have "length (index (rs v)) = length (zip x y)" by simp
    from window_zip [OF this, of sel] window_zip [OF xy, of sel] show ?thesis by simp
  qed
  show ?thesis
  proof (intro exI conjI impI)
    show "lookback_period sel = Some k" by (rule k)
    show "trail v k etf = Inr (window sel x, window sel y)" by (rule t)
    show "length (window sel x) = (case tail_points sel of None \<Rightarrow> length x | Some n \<Rightarrow> min n (length x))"
      by (rule length_window)
    show "length (window sel y) = (case tail_points sel of None \<Rightarrow> length y | Some n \<Rightarrow> min n (length y))"
      by (rule length_window)
    show "zip (window sel (index (rs v))) (zip (window sel x) (window sel y)) =
             window sel (zip (index (rs v)) (zip x y))"
      if "index (rs_mom v) = index (rs v)"
      using that by (rule z)
  qed
qed

text \<open>
  On the 64-day table the selection \<^verbatim>\<open>7D\<close> yields seven RS values and the last seven
  momentum values.
\<close>

theorem trail_window_witness:
  "rrg ex64_aprc ex64_sp500 = Inr ex64_vars \<and> rectangular ex64_aprc \<and>
   ''7D'' \<in> set slider_options \<and> lookback_period ''7D'' = Some (- 7) \<and>
   getitem (rs_mom ex64_vars) ''IT'' = Inr (replicate 63 (Fin (- 1 / 8)) @ [Fin (63 / 8)]) \<and>
   (\<exists>x. getitem (rs ex64_vars) ''IT'' = Inr x \<and> length (window ''7D'' x) = 7 \<and>
        trail ex64_vars (- 7) ''IT'' = Inr (window ''7D'' x, replicate 6 (Fin (- 1 / 8)) @ [Fin (63 / 8)]))"
proof -
  have r: "rectangular ex64_aprc"
    by (simp add: rectangular_def ex64_aprc_def ex64_prices_def)
  have s: "''7D'' \<in> set slider_options" by (simp add: slider_options_def)
  have k: "lookback_period ''7D'' = Some (- 7)" by (simp add: lookback_period_def)
  have tp: "tail_points ''7D'' = Some 7" by (simp add: tail_points_def)
  define x where "x = rs_col (benchmark ex64_aprc ex64_sp500) ex64_prices"
  have gx: "getitem (rs ex64_vars) ''IT'' = Inr x"
    unfolding ex64_vars_def rs_metrics ex64_joined by (simp add: getitem_def x_def)
  have lx: "length x = 64"
    by (simp add: x_def length_rs_col length_ratio_col ex64_bench ex64_prices_def)
  have gy: "getitem (rs_mom ex64_vars) ''IT'' = Inr (replicate 63 (Fin (- 1 / 8)) @ [Fin (63 / 8)])"
    using mom_column(4) [OF rrg_ex64 ex64_getitem_mom_raw] by (simp only: ex64_rs_mom_col)
  have wy: "window ''7D'' (replicate 63 (Fin (- 1 / 8)) @ [Fin (63 / 8)]) = replicate 6 (Fin (- 1 / 8)) @ [Fin (63 / 8)]"
    by (simp add: window_def tp)
  from trail_window [OF rrg_ex64 r gx gy s] obtain k' where
    "lookback_period ''7D'' = Some k'"
    "trail ex64_vars k' ''IT'' = Inr (window ''7D'' x, window ''7D'' (replicate 63 (Fin (- 1 / 8)) @ [Fin (63 / 8)]))"
    "length (window ''7D'' x) = (case tail_points ''7D'' of None \<Rightarrow> length x | Some n \<Rightarrow> min n (length x))"
    by blast
  with k lx tp wy have
    "trail ex64_vars (- 7) ''IT'' = Inr (window ''7D'' x, replicate 6 (Fin (- 1 / 8)) @ [Fin (63 / 8)])"
    "length (window ''7D'' x) = 7"
    by simp_all
  with rrg_ex64 r s k gx gy show ?thesis by blast
qed

text \<open>
  Claim C10. Once the pipeline has run, no cell of the final RS table and no cell of the
  final standardized momentum table is NaN (a cell may still be infinite).
\<close>

theorem no_nan_in_output:
  assumes "rrg aprc0 sp500 = Inr v"
  shows "(\<forall>(c, vs) \<in> set (columns (rs v)). \<forall>x \<in> set vs. \<not> isnan x) \<and>
         (\<forall>(c, vs) \<in> set (columns (rs_mom v)). \<forall>x \<in> set vs. \<not> isnan x)"
  using assms
  by (auto simp: rrg_Inr rs_metrics rs_mom_metrics rs_col_def rs_mom_col_def nan_to_zero_not_nan)

text \<open>
  On the three-day table, the RS and momentum columns of \<^verbatim>\<open>CD\<close>.
\<close>

theorem no_nan_in_output_witness:
  "rrg ex_aprc ex_sp500 = Inr ex_vars \<and>
   getitem (rs ex_vars) ''CD'' = Inr [Fin (- 5 / sqrt 50), Fin (5 / sqrt 50), Fin 0] \<and>
   \<not> isnan ([Fin (- 5 / sqrt 50), Fin (5 / sqrt 50), Fin 0] ! 2) \<and>
   getitem (rs_mom ex_vars) ''CD'' = Inr [Fin 0, Fin 0] \<and>
   \<not> isnan ([Fin 0, Fin 0] ! 1)"
  using rrg_ex ex_getitem_rs_cd ex_getitem_rs_mom_cd
    no_nan_in_output [OF rrg_ex] getitem_mem [OF ex_getitem_rs_cd] getitem_mem [OF ex_getitem_rs_mom_cd]
  by simp

end
